theory Spec2Isabelle
  imports Main "HOL-Library.Sublist"
begin

section \<open>Python values used by the scraper\<close>

text \<open>
  The exceptions that the modelled code can raise or receive from its libraries.
  \<open>SystemExit\<close> carries the argument of \<open>sys.exit\<close>; the program only ever calls
  \<open>sys.exit()\<close> and \<open>exit()\<close> without an argument, which is \<open>SystemExit None\<close>.
\<close>

datatype exn =
    MissingSchema
  | RequestException
  | ParserError
  | IndexError
  | TypeError
  | JSONDecodeError
  | KeyError string
  | AttributeError string
  | ValueError
  | InterfaceError
  | OverflowError
  | FileNotFoundError
  | PermissionError
  | SystemExit "int option"

text \<open>
  A decoded JSON value. An object is the list of its members in order; after
  \<open>json2obj\<close> the same constructor stands for the namedtuple built from it (attribute
  access by member name, positional access and iteration over the member values).
  A float is identified by its \<open>repr\<close>.
\<close>

datatype json =
    JNull
  | JBool bool
  | JInt int
  | JFloat string
  | JStr string
  | JArr "json list"
  | JObj "(string \<times> json) list"

definition bind_exn :: "exn + 'a \<Rightarrow> ('a \<Rightarrow> exn + 'b) \<Rightarrow> exn + 'b" where
  "bind_exn r f = (case r of Inl e \<Rightarrow> Inl e | Inr x \<Rightarrow> f x)"

text \<open>\<open>xs[i]\<close>: negative indices count from the end, out of range raises IndexError.\<close>

definition py_index :: "'a list \<Rightarrow> int \<Rightarrow> exn + 'a" where
  "py_index xs i =
     (if 0 \<le> i \<and> i < int (length xs) then Inr (xs ! nat i)
      else if i < 0 \<and> - int (length xs) \<le> i then Inr (xs ! nat (int (length xs) + i))
      else Inl IndexError)"

text \<open>\<open>s[i:j]\<close>: both bounds are clipped to the sequence, an empty range gives the empty sequence.\<close>

definition py_slice :: "'a list \<Rightarrow> int \<Rightarrow> int \<Rightarrow> 'a list" where
  "py_slice s i j =
     (let n = int (length s);
          lo = (if i < 0 then max (i + n) 0 else min i n);
          hi = (if j < 0 then max (j + n) 0 else min j n)
      in take (nat (hi - lo)) (drop (nat lo) s))"

text \<open>Truth value of an object in a condition.\<close>

fun py_truthy :: "json \<Rightarrow> bool" where
  "py_truthy JNull = False"
| "py_truthy (JBool b) = b"
| "py_truthy (JInt i) = (i \<noteq> 0)"
| "py_truthy (JFloat r) = (r \<noteq> ''0.0'' \<and> r \<noteq> ''-0.0'')"
| "py_truthy (JStr s) = (s \<noteq> [])"
| "py_truthy (JArr xs) = (xs \<noteq> [])"
| "py_truthy (JObj kvs) = (kvs \<noteq> [])"

text \<open>
  \<open>obj.name\<close> for the member names the program reads: only a namedtuple built from an
  object with that member has the attribute.
\<close>

fun getattr :: "json \<Rightarrow> string \<Rightarrow> exn + json" where
  "getattr (JObj kvs) a = (case map_of kvs a of Some v \<Rightarrow> Inr v | None \<Rightarrow> Inl (AttributeError a))"
| "getattr _ a = Inl (AttributeError a)"

text \<open>\<open>d[key]\<close> with a string key, on a value as \<open>json.loads\<close> returns it (objects are dicts).\<close>

fun getitem_key :: "json \<Rightarrow> string \<Rightarrow> exn + json" where
  "getitem_key (JObj kvs) k = (case map_of kvs k of Some v \<Rightarrow> Inr v | None \<Rightarrow> Inl (KeyError k))"
| "getitem_key _ k = Inl TypeError"

text \<open>\<open>x[i]\<close> with an integer index, on a value as \<open>json2obj\<close> returns it (objects are tuples).\<close>

fun getitem_int :: "json \<Rightarrow> int \<Rightarrow> exn + json" where
  "getitem_int (JArr xs) i = py_index xs i"
| "getitem_int (JObj kvs) i = py_index (map snd kvs) i"
| "getitem_int (JStr s) i = py_index (map (\<lambda>c. JStr [c]) s) i"
| "getitem_int _ i = Inl TypeError"

text \<open>The items a \<open>for\<close> loop runs over.\<close>

fun py_iter :: "json \<Rightarrow> exn + json list" where
  "py_iter (JArr xs) = Inr xs"
| "py_iter (JObj kvs) = Inr (map snd kvs)"
| "py_iter (JStr s) = Inr (map (\<lambda>c. JStr [c]) s)"
| "py_iter _ = Inl TypeError"

text \<open>\<open>s.split(c)\<close> for a separator of one character.\<close>

fun split_on :: "char \<Rightarrow> string \<Rightarrow> string list" where
  "split_on c [] = [[]]"
| "split_on c (x # xs) =
     (if x = c then [] # split_on c xs
      else (case split_on c xs of [] \<Rightarrow> [[x]] | p # ps \<Rightarrow> (x # p) # ps))"

text \<open>\<open>v.split(c)\<close> on an arbitrary value: only a string has the method.\<close>

fun str_split :: "json \<Rightarrow> char \<Rightarrow> exn + string list" where
  "str_split (JStr s) c = Inr (split_on c s)"
| "str_split (JObj kvs) c =
     (case map_of kvs ''split'' of Some v \<Rightarrow> Inl TypeError | None \<Rightarrow> Inl (AttributeError ''split''))"
| "str_split _ c = Inl (AttributeError ''split'')"

text \<open>\<open>sep.join(items)\<close>: every item has to be a string.\<close>

fun intercalate :: "string \<Rightarrow> string list \<Rightarrow> string" where
  "intercalate sep [] = []"
| "intercalate sep [s] = s"
| "intercalate sep (s # t # ss) = s @ sep @ intercalate sep (t # ss)"

fun the_strs :: "json list \<Rightarrow> string list option" where
  "the_strs [] = Some []"
| "the_strs (JStr s # vs) = (case the_strs vs of None \<Rightarrow> None | Some ss \<Rightarrow> Some (s # ss))"
| "the_strs (_ # vs) = None"

definition py_join :: "string \<Rightarrow> json list \<Rightarrow> exn + string" where
  "py_join sep items = (case the_strs items of None \<Rightarrow> Inl TypeError | Some ss \<Rightarrow> Inr (intercalate sep ss))"

text \<open>
  \<open>s.strip()\<close>, with the characters below 256 for which \<open>str.isspace\<close> holds (a \<open>char\<close>
  has eight bits).
\<close>

definition is_space :: "char \<Rightarrow> bool" where
  "is_space c = ((of_char c :: nat) \<in> {9, 10, 11, 12, 13, 28, 29, 30, 31, 32, 133, 160})"

definition strip :: "string \<Rightarrow> string" where
  "strip s = rev (dropWhile is_space (rev (dropWhile is_space s)))"

section \<open>The libraries the scraper calls\<close>

text \<open>
  The network, the HTML parser, the JSON decoder, the file system and the URL validator are
  not part of the repository; the model takes them as parameters.
  \<^item> \<open>requests_get url\<close>: \<open>requests.get(url)\<close>, the content of the response or the exception raised;
  \<^item> \<open>script_texts content\<close>: \<open>html.fromstring(content).xpath("//script[@type='application/json']")\<close>,
    the \<open>text\<close> of each element found, in the order xpath returns them (\<open>None\<close> for an element without text);
  \<^item> \<open>json_loads s\<close>: \<open>json.loads(s)\<close>, \<open>None\<close> when it raises JSONDecodeError;
  \<^item> \<open>py_str v\<close>: the builtin \<open>str(v)\<close>;
  \<^item> \<open>field_name_ok k\<close>: whether \<open>namedtuple\<close> accepts \<open>k\<close> as a field name;
  \<^item> \<open>open_file f\<close>: \<open>click.open_file(f, 'r')\<close>, the lines of the file or the exception raised;
  \<^item> \<open>validators_url s\<close>: whether \<open>validators.url(s)\<close> is true.
\<close>

record env =
  requests_get :: "string \<Rightarrow> exn + string"
  script_texts :: "string \<Rightarrow> exn + string option list"
  json_loads :: "string \<Rightarrow> json option"
  py_str :: "json \<Rightarrow> string"
  field_name_ok :: "string \<Rightarrow> bool"
  open_file :: "string \<Rightarrow> exn + string list"
  validators_url :: "string \<Rightarrow> bool"

text \<open>
  What the program writes to its output and error streams and, for the pool, which worker
  took which URL from the queue.
\<close>

datatype event =
    Print string
  | ErrWrite string
  | Get nat string

section \<open>PropertyScraper\<close>

text \<open>
  \<open>json2obj(json.dumps(v))\<close>: serialising and decoding again gives back the value, and the
  object hook builds a namedtuple from every object, which raises ValueError for a member
  name that is not a valid field name.
\<close>

fun object_hook_ok :: "(string \<Rightarrow> bool) \<Rightarrow> json \<Rightarrow> bool" where
  "object_hook_ok ok (JArr xs) = (\<forall>x \<in> set xs. object_hook_ok ok x)"
| "object_hook_ok ok (JObj kvs) = ((\<forall>kv \<in> set kvs. ok (fst kv)) \<and> (\<forall>v \<in> set (map snd kvs). object_hook_ok ok v))"
| "object_hook_ok ok _ = True"

definition json2obj :: "env \<Rightarrow> json \<Rightarrow> exn + json" where
  "json2obj env v = (if object_hook_ok (field_name_ok env) v then Inr v else Inl ValueError)"

record PropertyScraper =
  site_url :: string
  html :: string
  listing :: json

definition set_full_site_html :: "env \<Rightarrow> string \<Rightarrow> exn + string" where
  "set_full_site_html env url = requests_get env url"

definition get_full_site_json :: "env \<Rightarrow> string \<Rightarrow> event list \<times> (exn + json)" where
  "get_full_site_json env page =
     (case script_texts env page of
        Inl e \<Rightarrow> ([], Inl e)
      | Inr react_items \<Rightarrow>
          (case py_index react_items 2 of
             Inl e \<Rightarrow> ([ErrWrite ''Experiencing throttling from Airbnb. Stopping.''], Inl (SystemExit None))
           | Inr None \<Rightarrow> ([], Inl TypeError)
           | Inr (Some text) \<Rightarrow>
               (case json_loads env (py_slice text 4 (- 3)) of
                  None \<Rightarrow> ([], Inl JSONDecodeError)
                | Some v \<Rightarrow> ([], Inr v))))"

definition get_listing_json :: "env \<Rightarrow> string \<Rightarrow> event list \<times> (exn + json)" where
  "get_listing_json env page =
     (case get_full_site_json env page of
        (evs, Inl e) \<Rightarrow> (evs, Inl e)
      | (evs, Inr j) \<Rightarrow>
          (evs, bind_exn (getitem_key j ''bootstrapData'') (\<lambda>b. getitem_key b ''listing'')))"

definition set_listing :: "env \<Rightarrow> string \<Rightarrow> event list \<times> (exn + json)" where
  "set_listing env page =
     (case get_listing_json env page of
        (evs, Inl e) \<Rightarrow> (evs, Inl e)
      | (evs, Inr l) \<Rightarrow> (evs, json2obj env l))"

definition PropertyScraper_init :: "env \<Rightarrow> string \<Rightarrow> event list \<times> (exn + PropertyScraper)" where
  "PropertyScraper_init env url =
     (case (case set_full_site_html env url of
              Inl e \<Rightarrow> ([], Inl e)
            | Inr page \<Rightarrow>
                (case set_listing env page of
                   (evs, Inl e) \<Rightarrow> (evs, Inl e)
                 | (evs, Inr l) \<Rightarrow> (evs, Inr \<lparr>site_url = url, html = page, listing = l\<rparr>))) of
        (evs, Inl e) \<Rightarrow>
          (if e = MissingSchema
           then (evs @ [Print (''Invalid URL (?) '' @ url)], Inl (SystemExit None))
           else (evs, Inl e))
      | (evs, Inr ps) \<Rightarrow> (evs, Inr ps))"

section \<open>DownloadManager and its workers\<close>

text \<open>One row of the table \<open>listings\<close>, with the values as they are bound to the insert.\<close>

record row =
  col_url :: string
  col_name :: json
  col_market :: json
  col_rating :: string
  col_review_count :: string
  col_type :: json
  col_bed :: json
  col_bath :: json
  col_guest :: json
  col_price :: json
  col_photo_url :: string
  col_description :: json
  col_amenities :: string

text \<open>
  sqlite3 binds None, numbers and strings, the parameters in their order: a list or a
  namedtuple is refused as an unsupported type, an integer outside 64 bits as too large.
\<close>

fun bind_param :: "json \<Rightarrow> exn option" where
  "bind_param (JArr xs) = Some InterfaceError"
| "bind_param (JObj kvs) = Some InterfaceError"
| "bind_param (JInt i) = (if - (2 ^ 63) \<le> i \<and> i < 2 ^ 63 then None else Some OverflowError)"
| "bind_param v = None"

fun bind_all :: "json list \<Rightarrow> exn option" where
  "bind_all [] = None"
| "bind_all (v # vs) = (case bind_param v of Some e \<Rightarrow> Some e | None \<Rightarrow> bind_all vs)"

text \<open>The loop of \<open>__store_db\<close> that collects the names of the amenities.\<close>

fun amenity_loop :: "json list \<Rightarrow> json list \<Rightarrow> exn + json list" where
  "amenity_loop [] amenities = Inr amenities"
| "amenity_loop (amenity # rest) amenities =
     (case getattr amenity ''is_present'' of
        Inl e \<Rightarrow> Inl e
      | Inr p \<Rightarrow>
          if py_truthy p
          then (case getattr amenity ''name'' of
                  Inl e \<Rightarrow> Inl e
                | Inr n \<Rightarrow> amenity_loop rest (amenities @ [n]))
          else amenity_loop rest amenities)"

text \<open>
  \<open>Worker.__store_db\<close>: the row it inserts and commits, or the exception it raises. The
  arguments of the insert are evaluated from left to right, after the amenity loop.
\<close>

definition store_db :: "env \<Rightarrow> string \<Rightarrow> json \<Rightarrow> exn + row" where
  "store_db env url l =
     bind_exn (getattr l ''listing_amenities'') (\<lambda>listing_amenities.
     bind_exn (py_iter listing_amenities) (\<lambda>items.
     bind_exn (amenity_loop items []) (\<lambda>amenities.
     bind_exn (getattr l ''name'') (\<lambda>name.
     bind_exn (getattr l ''market'') (\<lambda>market.
     bind_exn (getattr l ''review_details_interface'') (\<lambda>rdi.
     bind_exn (getattr rdi ''review_score'') (\<lambda>review_score.
     bind_exn (getattr l ''review_details_interface'') (\<lambda>rdi'.
     bind_exn (getattr rdi' ''review_count'') (\<lambda>review_count.
     bind_exn (getattr l ''room_and_property_type'') (\<lambda>room_and_property_type.
     bind_exn (getattr l ''bed_label'') (\<lambda>bed_label.
     bind_exn (getattr l ''bathroom_label'') (\<lambda>bathroom_label.
     bind_exn (getattr l ''guest_label'') (\<lambda>guest_label.
     bind_exn (getattr l ''price_formatted_for_embed'') (\<lambda>price_formatted_for_embed.
     bind_exn (getattr l ''photos'') (\<lambda>photos.
     bind_exn (getitem_int photos 0) (\<lambda>photo.
     bind_exn (getattr photo ''large_cover'') (\<lambda>large_cover.
     bind_exn (str_split large_cover CHR ''?'') (\<lambda>parts.
     bind_exn (py_index parts 0) (\<lambda>photo_url.
     bind_exn (getattr l ''description'') (\<lambda>description.
     bind_exn (py_join '','' amenities) (\<lambda>joined.
       case bind_all
              [name, market, room_and_property_type, bed_label, bathroom_label, guest_label,
               price_formatted_for_embed, description] of
         Some e \<Rightarrow> Inl e
       | None \<Rightarrow>
           Inr \<lparr>col_url = url, col_name = name, col_market = market,
                col_rating = py_str env review_score,
                col_review_count = py_str env review_count,
                col_type = room_and_property_type, col_bed = bed_label,
                col_bath = bathroom_label, col_guest = guest_label,
                col_price = price_formatted_for_embed, col_photo_url = photo_url,
                col_description = description, col_amenities = joined\<rparr>)))))))))))))))))))))"

text \<open>
  A worker thread is between two iterations (\<open>Idle\<close>), holds the URL it has taken from the
  queue (\<open>Holding\<close>), has left its loop on the empty queue (\<open>Done\<close>), or was ended by an
  exception that left \<open>run\<close> (\<open>Died\<close>; SystemExit ends the thread like any other exception,
  only without a traceback).
\<close>

datatype wstate = Idle | Holding string | Done | Died exn

fun running :: "wstate \<Rightarrow> bool" where
  "running Idle = True"
| "running (Holding url) = True"
| "running _ = False"

text \<open>
  The DownloadManager with what it shares with its workers: the table \<open>listings\<close> of the
  database, the queue, the threads, and \<open>out\<close>, everything written so far to the two output
  streams together with the record of which worker took which URL.
\<close>

record dm =
  db :: "row list"
  conn :: int
  urls :: string
  queue :: "string list"
  threads :: "wstate list"
  out :: "event list"

text \<open>The body of one iteration of \<open>Worker.run\<close> after the URL was taken.\<close>

definition process :: "env \<Rightarrow> string \<Rightarrow> event list \<times> (exn + row)" where
  "process env url =
     (case PropertyScraper_init env url of
        (evs, Inl e) \<Rightarrow> (evs, Inl e)
      | (evs, Inr ps) \<Rightarrow> (evs, store_db env url (listing ps)))"

text \<open>
  One atomic step of worker \<open>i\<close>: \<open>get_nowait\<close> on the shared queue (which ends the loop when
  the queue is empty), or the scrape of the URL it holds with the insert and commit of the
  row. The scrape depends on nothing the workers share, so these two steps give every order
  in which the workers can take URLs, write messages and commit rows. The writers are
  serialised by the database; a writer that waits for its turn longer than the timeout of
  sqlite3 is outside the model.
\<close>

definition worker_step :: "env \<Rightarrow> nat \<Rightarrow> dm \<Rightarrow> dm" where
  "worker_step env i d =
     (if i < length (threads d) then
        (case threads d ! i of
           Idle \<Rightarrow>
             (case queue d of
                [] \<Rightarrow> d\<lparr>threads := (threads d)[i := Done]\<rparr>
              | url # q \<Rightarrow>
                  d\<lparr>queue := q, threads := (threads d)[i := Holding url],
                    out := out d @ [Get i url]\<rparr>)
         | Holding url \<Rightarrow>
             (case process env url of
                (evs, Inl e) \<Rightarrow> d\<lparr>threads := (threads d)[i := Died e], out := out d @ evs\<rparr>
              | (evs, Inr r) \<Rightarrow>
                  d\<lparr>db := db d @ [r], threads := (threads d)[i := Idle], out := out d @ evs\<rparr>)
         | Done \<Rightarrow> d
         | Died e \<Rightarrow> d)
      else d)"

definition live :: "dm \<Rightarrow> nat list" where
  "live d = filter (\<lambda>i. running (threads d ! i)) [0..<length (threads d)]"

definition weight :: "wstate \<Rightarrow> nat" where
  "weight w = (case w of Idle \<Rightarrow> 1 | Holding url \<Rightarrow> 2 | Done \<Rightarrow> 0 | Died e \<Rightarrow> 0)"

definition work_left :: "dm \<Rightarrow> nat" where
  "work_left d = 3 * length (queue d) + sum_list (map weight (threads d))"

definition next_choice :: "nat list \<Rightarrow> nat" where
  "next_choice sched = (case sched of [] \<Rightarrow> 0 | c # cs \<Rightarrow> c)"

text \<open>
  \<open>thread.join()\<close> for every thread returns when all of them have ended. Until then some
  thread that is still running makes its next step; \<open>sched\<close> chooses which one (the first
  when the list is used up), so that every interleaving of the workers is the run of some
  \<open>sched\<close>. Each step lowers \<open>work_left\<close>, which is why the wait ends.
\<close>

lemma sum_list_weight_update:
  "i < length ws \<Longrightarrow> sum_list (map weight (ws[i := w])) + weight (ws ! i) = sum_list (map weight ws) + weight w"
proof (induction ws arbitrary: i)
  case Nil
  then show ?case by simp
next
  case (Cons a ws)
  then show ?case by (cases i) auto
qed

lemma live_running: "i \<in> set (live d) \<Longrightarrow> i < length (threads d) \<and> running (threads d ! i)"
  by (auto simp: live_def)

lemma worker_step_decreases:
  assumes "i < length (threads d)" "running (threads d ! i)"
  shows "work_left (worker_step env i d) < work_left d"
proof (cases "threads d ! i")
  case Idle
  show ?thesis
  proof (cases "queue d")
    case Nil
    with Idle assms sum_list_weight_update[of i "threads d" Done]
    show ?thesis by (simp add: worker_step_def work_left_def weight_def)
  next
    case (Cons u q)
    with Idle assms sum_list_weight_update[of i "threads d" "Holding u"]
    show ?thesis by (simp add: worker_step_def work_left_def weight_def)
  qed
next
  case (Holding u)
  obtain evs r where p: "process env u = (evs, r)" by (cases "process env u")
  show ?thesis
  proof (cases r)
    case (Inl e)
    with p Holding assms sum_list_weight_update[of i "threads d" "Died e"]
    show ?thesis by (simp add: worker_step_def work_left_def weight_def)
  next
    case (Inr x)
    with p Holding assms sum_list_weight_update[of i "threads d" Idle]
    show ?thesis by (simp add: worker_step_def work_left_def weight_def)
  qed
next
  case Done
  with assms show ?thesis by simp
next
  case (Died e)
  with assms show ?thesis by simp
qed

lemma pick_live: "live d \<noteq> [] \<Longrightarrow> live d ! (c mod length (live d)) \<in> set (live d)"
  by simp

function join_threads :: "env \<Rightarrow> nat list \<Rightarrow> dm \<Rightarrow> dm" where
  "join_threads env sched d =
     (if live d = [] then d
      else join_threads env (tl sched)
             (worker_step env (live d ! (next_choice sched mod length (live d))) d))"
  by pat_completeness auto
termination
proof (relation "measure (\<lambda>(env, sched, d). work_left d)")
  show "wf (measure (\<lambda>(env, sched, d). work_left d))" by simp
next
  fix env :: env and sched :: "nat list" and d :: dm
  assume "live d \<noteq> []"
  then have "live d ! (next_choice sched mod length (live d)) \<in> set (live d)" by simp
  then have "work_left (worker_step env (live d ! (next_choice sched mod length (live d))) d) < work_left d"
    using live_running worker_step_decreases by blast
  then show "((env, tl sched, worker_step env (live d ! (next_choice sched mod length (live d))) d), env, sched, d)
        \<in> measure (\<lambda>(env, sched, d). work_left d)" by simp
qed

declare join_threads.simps [simp del]

text \<open>
  \<open>__init_db\<close>: the table is created when the database file has none, and kept otherwise.
\<close>

definition init_db :: "row list option \<Rightarrow> row list" where
  "init_db file = (case file of None \<Rightarrow> [] | Some rs \<Rightarrow> rs)"

text \<open>The loop of \<open>__process_input\<close> over the lines read.\<close>

fun put_urls :: "string list \<Rightarrow> string list \<Rightarrow> string list" where
  "put_urls [] q = q"
| "put_urls (line # rest) q =
     (let url = strip line
      in if url = [] \<or> hd url = CHR ''#'' then put_urls rest q else put_urls rest (q @ [url]))"

definition process_input :: "env \<Rightarrow> string \<Rightarrow> exn + string list" where
  "process_input env file =
     bind_exn
       (case open_file env file of
          Inr lines \<Rightarrow> Inr lines
        | Inl e \<Rightarrow>
            if e = FileNotFoundError
            then Inr (if validators_url env file then [strip file] else [])
            else Inl e)
       (\<lambda>input. Inr (put_urls input []))"

definition DownloadManager_init :: "env \<Rightarrow> row list option \<Rightarrow> int \<Rightarrow> string \<Rightarrow> exn + dm" where
  "DownloadManager_init env file_db c file =
     bind_exn (process_input env file) (\<lambda>q.
       Inr \<lparr>db = init_db file_db, conn = c, urls = file, queue = q, threads = [],
            out = [Print ''Processing urls...'']\<rparr>)"

text \<open>
  The part of \<open>DownloadManager.run\<close> between the check for an empty queue and the wait for
  the threads: the number of threads, the assertion on it, whose failure is caught and only
  written to the error stream, and the loop that starts the threads. \<open>range(n_conn)\<close> is
  empty for \<open>n_conn \<le> 0\<close>. The threads are all started before the first of them is
  scheduled here; a thread that runs while later ones are still being started is a thread
  that \<open>sched\<close> chooses before the others.
\<close>

definition start_threads :: "dm \<Rightarrow> dm" where
  "start_threads d =
     (let n_conn = min (conn d) (int (length (queue d)));
          d1 = (if 1 \<le> n_conn \<and> n_conn \<le> 10000 then d
                else d\<lparr>out := out d @ [ErrWrite ''invalid number of concurrent connections'']\<rparr>);
          d2 = d1\<lparr>threads := threads d1 @ replicate (nat n_conn) Idle\<rparr>
      in d2\<lparr>out := out d2 @ [Print ''Scraping begins...'']\<rparr>)"

text \<open>
  \<open>DownloadManager.run\<close>: the manager when \<open>run\<close> is left, and the exception that left it if
  one did.
\<close>

definition run :: "env \<Rightarrow> nat list \<Rightarrow> dm \<Rightarrow> dm \<times> exn option" where
  "run env sched d =
     (if queue d = []
      then (d\<lparr>out := out d @ [ErrWrite ''No URLs given'']\<rparr>, Some (SystemExit None))
      else (join_threads env sched (start_threads d), None))"

definition main :: "env \<Rightarrow> nat list \<Rightarrow> row list option \<Rightarrow> int \<Rightarrow> string \<Rightarrow> dm option \<times> exn option" where
  "main env sched file_db c file =
     (case DownloadManager_init env file_db c file of
        Inl e \<Rightarrow> (None, Some e)
      | Inr d \<Rightarrow> (case run env sched d of (d', r) \<Rightarrow> (Some d', r)))"

text \<open>
  The exit status of the interpreter: 0 when the main thread returns, the argument of
  \<open>sys.exit\<close> when SystemExit leaves it (0 for no argument), 1 for any other exception.
\<close>

fun exit_status :: "exn option \<Rightarrow> int" where
  "exit_status None = 0"
| "exit_status (Some (SystemExit None)) = 0"
| "exit_status (Some (SystemExit (Some n))) = n"
| "exit_status (Some e) = 1"

text \<open>The URLs taken from the queue, in the order the workers took them.\<close>

fun taken :: "event list \<Rightarrow> string list" where
  "taken [] = []"
| "taken (Get i url # evs) = url # taken evs"
| "taken (ev # evs) = taken evs"

section \<open>The listing of the specification\<close>

text \<open>
  The amenity list as the specification describes it: the names of the amenities whose
  presence flag is true, in the order of the payload. \<open>is_amenity a (n, p)\<close> says that the
  member \<open>a\<close> of the payload's list is an amenity with name \<open>n\<close> and presence flag \<open>p\<close>.
\<close>

fun present_names :: "(string \<times> bool) list \<Rightarrow> string list" where
  "present_names [] = []"
| "present_names ((n, p) # rest) = (if p then n # present_names rest else present_names rest)"

definition is_amenity :: "json \<Rightarrow> string \<times> bool \<Rightarrow> bool" where
  "is_amenity a np =
     (getattr a ''name'' = Inr (JStr (fst np)) \<and> getattr a ''is_present'' = Inr (JBool (snd np)))"

text \<open>
  A listing from which a row can be built, its amenity list apart: the eight fields that
  are bound as they are hold values sqlite3 binds, the review details hold a score and a
  count, and the first photo holds a cover URL that is a string.
\<close>

definition bound_fields :: "string list" where
  "bound_fields =
     [''name'', ''market'', ''room_and_property_type'', ''bed_label'', ''bathroom_label'',
      ''guest_label'', ''price_formatted_for_embed'', ''description'']"

definition has :: "json \<Rightarrow> string \<Rightarrow> bool" where
  "has x f = (case getattr x f of Inl e \<Rightarrow> False | Inr v \<Rightarrow> True)"

lemma has_iff: "has x f \<longleftrightarrow> (\<exists>v. getattr x f = Inr v)"
  by (simp add: has_def split: sum.splits)

lemma not_has_iff: "\<not> has x f \<longleftrightarrow> getattr x f = Inl (AttributeError f)"
  by (cases x) (auto simp: has_def split: option.splits)

definition well_formed :: "json \<Rightarrow> bool" where
  "well_formed l =
     (list_all (\<lambda>f. case getattr l f of Inl e \<Rightarrow> False | Inr v \<Rightarrow> bind_param v = None) bound_fields
      \<and> (case getattr l ''review_details_interface'' of
            Inl e \<Rightarrow> False
          | Inr rdi \<Rightarrow> has rdi ''review_score'' \<and> has rdi ''review_count'')
      \<and> (case getattr l ''photos'' of
            Inl e \<Rightarrow> False
          | Inr photos \<Rightarrow>
              (case getitem_int photos 0 of
                 Inl e \<Rightarrow> False
               | Inr photo \<Rightarrow>
                   (case getattr photo ''large_cover'' of
                      Inl e \<Rightarrow> False
                    | Inr c \<Rightarrow> (case c of JStr s \<Rightarrow> True | _ \<Rightarrow> False)))))"

section \<open>Concrete inputs\<close>

text \<open>
  A small world to run the model on: the content of a page is named like its URL, the page
  \<open>two\<close> has two application/json script elements and every other page three, the third
  holding the page's name between comment markers; \<open>demo_loads\<close> decodes the names of a
  complete listing, of one without photos and of one without a name, and the spec's example.
\<close>

definition demo_amenities :: json where
  "demo_amenities =
     JArr [JObj [(''name'', JStr ''Wifi''), (''is_present'', JBool True)],
           JObj [(''name'', JStr ''Pool''), (''is_present'', JBool False)]]"

definition demo_listing :: "json \<Rightarrow> json \<Rightarrow> json" where
  "demo_listing name photos =
     JObj [(''name'', name), (''market'', JStr ''Denver''),
           (''review_details_interface'',
              JObj [(''review_score'', JInt 95), (''review_count'', JInt 12)]),
           (''room_and_property_type'', JStr ''Entire loft''),
           (''bed_label'', JStr ''1 bed''), (''bathroom_label'', JStr ''1 bath''),
           (''guest_label'', JStr ''2 guests''),
           (''price_formatted_for_embed'', JStr ''80 USD''),
           (''photos'', photos), (''description'', JStr ''Quiet''),
           (''listing_amenities'', demo_amenities)]"

definition demo_photos :: json where
  "demo_photos =
     JArr [JObj [(''large_cover'', JStr ''http://img/1.jpg?aki_policy=large'')],
           JObj [(''large_cover'', JStr ''http://img/2.jpg'')]]"

definition demo_payload :: "json \<Rightarrow> json" where
  "demo_payload l = JObj [(''bootstrapData'', JObj [(''listing'', l)])]"

definition demo_loads :: "string \<Rightarrow> json option" where
  \<open>demo_loads s =
     (if s = ''{"a":1}'' then Some (JObj [(''a'', JInt 1)])
      else if s = ''good'' then Some (demo_payload (demo_listing (JStr ''Loft'') demo_photos))
      else if s = ''nophoto'' then Some (demo_payload (demo_listing (JStr ''Loft'') (JArr [])))
      else if s = ''nofield'' then
        Some (demo_payload (JObj [(''market'', JStr ''Denver''), (''listing_amenities'', JArr [])]))
      else None)\<close>

fun demo_str :: "json \<Rightarrow> string" where
  "demo_str (JInt i) = (if i = 95 then ''95'' else if i = 12 then ''12'' else ''0'')"
| "demo_str (JStr s) = s"
| "demo_str (JFloat r) = r"
| "demo_str v = ''None''"

definition demo_env :: env where
  "demo_env =
     \<lparr>requests_get = (\<lambda>url. if url = ''ftp'' then Inl MissingSchema else Inr url),
      script_texts = (\<lambda>page.
         if page = ''two'' then Inr [Some ''x'', Some ''y'']
         else Inr [Some ''x'', Some ''y'', Some (''<!--'' @ page @ ''-->'')]),
      json_loads = demo_loads,
      py_str = demo_str,
      field_name_ok = (\<lambda>k. k \<noteq> []),
      open_file = (\<lambda>f.
         if f = ''urls.txt'' then Inr [''# listings'', ''good '', '''', ''bad'']
         else if f = ''locked.txt'' then Inl PermissionError
         else Inl FileNotFoundError),
      validators_url = (\<lambda>s. s = ''http://good'')\<rparr>"

text \<open>A manager as the constructor leaves it, with the given number of connections and queue.\<close>

definition demo_dm :: "int \<Rightarrow> string list \<Rightarrow> dm" where
  "demo_dm c q =
     \<lparr>db = [], conn = c, urls = ''urls.txt'', queue = q, threads = [],
      out = [Print ''Processing urls...'']\<rparr>"

section \<open>Python helpers\<close>

lemma bind_exn_Inr_iff: "bind_exn r f = Inr y \<longleftrightarrow> (\<exists>x. r = Inr x \<and> f x = Inr y)"
  by (cases r) (simp_all add: bind_exn_def)

lemma bind_exn_Inl [simp]: "bind_exn (Inl e) f = Inl e"
  by (simp add: bind_exn_def)

lemma bind_exn_Inr [simp]: "bind_exn (Inr x) f = f x"
  by (simp add: bind_exn_def)

lemma py_index_0_Cons [simp]: "py_index (x # xs) 0 = Inr x"
  by (simp add: py_index_def)

lemma py_index_0_Nil [simp]: "py_index [] 0 = Inl IndexError"
  by (simp add: py_index_def)

lemma py_index_2: "py_index xs 2 = (if 2 < length xs then Inr (xs ! 2) else Inl IndexError)"
  by (auto simp: py_index_def)

lemma py_slice_4_minus_3: "py_slice t 4 (- 3) = drop 4 (rev (drop 3 (rev t)))"
proof -
  have "rev (drop 3 (rev t)) = take (length t - 3) t"
    by (simp add: drop_rev)
  moreover have "py_slice t 4 (- 3) = drop 4 (take (length t - 3) t)"
    by (auto simp: py_slice_def Let_def drop_take min_def max_def nat_diff_distrib intro!: arg_cong2[where f=take])
  ultimately show ?thesis by simp
qed

lemma unwrap_markers: "drop 4 (rev (drop 3 (rev (''<!--'' @ payload @ ''-->'')))) = payload"
  by simp

section \<open>The record extractor\<close>

text \<open>
  C5. On a page with at least three application/json script elements, extraction takes the
  third one in the order xpath returns them, removes 4 leading and 3 trailing characters
  from its text and decodes the rest with \<open>json.loads\<close>; for a text that is a payload
  between the markers \<open><!--\<close> and \<open>-->\<close> the result is the decoded payload.
\<close>

theorem extraction_third_script:
  assumes "script_texts env page = Inr items" and "2 < length items" and "items ! 2 = Some t"
  shows "get_full_site_json env page =
           ([], case json_loads env (drop 4 (rev (drop 3 (rev t)))) of
                  None \<Rightarrow> Inl JSONDecodeError | Some v \<Rightarrow> Inr v)
         \<and> (\<forall>payload. t = ''<!--'' @ payload @ ''-->'' \<longrightarrow>
              get_full_site_json env page =
                ([], case json_loads env payload of None \<Rightarrow> Inl JSONDecodeError | Some v \<Rightarrow> Inr v))"
proof -
  have a: "get_full_site_json env page =
           ([], case json_loads env (drop 4 (rev (drop 3 (rev t)))) of
                  None \<Rightarrow> Inl JSONDecodeError | Some v \<Rightarrow> Inr v)"
    using assms by (simp add: get_full_site_json_def py_index_2 py_slice_4_minus_3 split: option.splits)
  show ?thesis
  proof (intro conjI allI impI)
    show "get_full_site_json env page =
           ([], case json_loads env (drop 4 (rev (drop 3 (rev t)))) of
                  None \<Rightarrow> Inl JSONDecodeError | Some v \<Rightarrow> Inr v)" by (rule a)
  next
    fix payload assume "t = ''<!--'' @ payload @ ''-->''"
    then show "get_full_site_json env page =
                ([], case json_loads env payload of None \<Rightarrow> Inl JSONDecodeError | Some v \<Rightarrow> Inr v)"
      using a by simp
  qed
qed


theorem extraction_third_script_witness:
  \<open>script_texts demo_env ''{"a":1}'' = Inr [Some ''x'', Some ''y'', Some ''<!--{"a":1}-->'']
   \<and> 2 < length [Some ''x'', Some ''y'', Some ''<!--{"a":1}-->'']
   \<and> [Some ''x'', Some ''y'', Some ''<!--{"a":1}-->''] ! 2 = Some ''<!--{"a":1}-->''
   \<and> get_full_site_json demo_env ''{"a":1}'' = ([], Inr (JObj [(''a'', JInt 1)]))\<close>
proof -
  have h1: \<open>script_texts demo_env ''{"a":1}'' = Inr [Some ''x'', Some ''y'', Some ''<!--{"a":1}-->'']\<close>
    by (simp add: demo_env_def)
  have h2: \<open>2 < length [Some ''x'', Some ''y'', Some ''<!--{"a":1}-->'']\<close>
    by simp
  have h3: \<open>[Some ''x'', Some ''y'', Some ''<!--{"a":1}-->''] ! 2 = Some ''<!--{"a":1}-->''\<close>
    by simp
  have \<open>get_full_site_json demo_env ''{"a":1}'' =
          ([], case json_loads demo_env ''{"a":1}'' of None \<Rightarrow> Inl JSONDecodeError | Some v \<Rightarrow> Inr v)\<close>
    using extraction_third_script [OF h1 h2 h3] by simp
  then have \<open>get_full_site_json demo_env ''{"a":1}'' = ([], Inr (JObj [(''a'', JInt 1)]))\<close>
    by (simp add: demo_env_def demo_loads_def)
  with h1 h2 h3 show ?thesis by simp
qed

section \<open>The row a worker stores\<close>

lemma the_strs_map_JStr [simp]: "the_strs (map JStr ss) = Some ss"
  by (induction ss) simp_all

lemma py_join_strs [simp]: "py_join sep (map JStr ss) = Inr (intercalate sep ss)"
  by (simp add: py_join_def)

lemma amenity_loop_present:
  "list_all2 is_amenity items ams \<Longrightarrow>
   amenity_loop items acc = Inr (acc @ map JStr (present_names ams))"
proof (induction items ams arbitrary: acc rule: list_all2_induct)
  case Nil
  then show ?case by simp
next
  case (Cons a items np ams)
  obtain n p where np: "np = (n, p)" by (cases np)
  with Cons show ?case by (simp add: is_amenity_def)
qed

lemma present_names_filter: "present_names ams = map fst (filter snd ams)"
  by (induction ams) auto

lemma split_on_first: "py_index (split_on c s) 0 = Inr (takeWhile (\<lambda>x. x \<noteq> c) s)"
proof (induction s)
  case Nil
  then show ?case by simp
next
  case (Cons x s)
  then show ?case by (cases "split_on c s") (auto simp: py_index_def)
qed

lemma store_db_well_formed:
  assumes "list_all2 is_amenity items ams"
    and "getattr l ''listing_amenities'' = Inr (JArr items)"
    and "well_formed l"
  shows "\<exists>r. store_db env url l = Inr r \<and> col_url r = url
              \<and> col_amenities r = intercalate '','' (present_names ams)"
proof -
  from assms(3) obtain name market rtype bed bath guest price descr where
    f: "getattr l ''name'' = Inr name" "getattr l ''market'' = Inr market"
       "getattr l ''room_and_property_type'' = Inr rtype" "getattr l ''bed_label'' = Inr bed"
       "getattr l ''bathroom_label'' = Inr bath" "getattr l ''guest_label'' = Inr guest"
       "getattr l ''price_formatted_for_embed'' = Inr price" "getattr l ''description'' = Inr descr"
    and b: "bind_param name = None" "bind_param market = None" "bind_param rtype = None"
       "bind_param bed = None" "bind_param bath = None" "bind_param guest = None"
       "bind_param price = None" "bind_param descr = None"
    by (auto simp: well_formed_def bound_fields_def split: sum.splits)
  from assms(3) obtain rdi score cnt where
    r: "getattr l ''review_details_interface'' = Inr rdi"
       "getattr rdi ''review_score'' = Inr score" "getattr rdi ''review_count'' = Inr cnt"
    by (auto simp: well_formed_def has_iff split: sum.splits)
  from assms(3) obtain photos photo c where
    p: "getattr l ''photos'' = Inr photos" "getitem_int photos 0 = Inr photo"
       "getattr photo ''large_cover'' = Inr (JStr c)"
    by (auto simp: well_formed_def split: sum.splits json.splits)
  show ?thesis
    unfolding store_db_def
    by (simp add: assms(2) amenity_loop_present[OF assms(1)] f b r p split_on_first)
qed

text \<open>
  C6. When the payload's amenity list holds amenities with a string name and a boolean
  presence flag, the list \<open>__store_db\<close> derives is exactly the names of the amenities whose
  flag is true, in the order of the payload; the amenities column of every row it inserts
  is that list joined with commas, and for a listing whose other fields are well formed it
  does insert such a row.
\<close>

theorem amenities_are_present_names:
  assumes "list_all2 is_amenity items ams"
  shows "amenity_loop items [] = Inr (map JStr (present_names ams))
   \<and> present_names ams = map fst (filter snd ams)
   \<and> (getattr l ''listing_amenities'' = Inr (JArr items) \<longrightarrow>
        store_db env url l = Inr r \<longrightarrow>
        col_amenities r = intercalate '','' (present_names ams))
   \<and> (getattr l ''listing_amenities'' = Inr (JArr items) \<longrightarrow>
        well_formed l \<longrightarrow>
        (\<exists>r'. store_db env url l = Inr r' \<and> col_url r' = url
               \<and> col_amenities r' = intercalate '','' (present_names ams)))"
proof (intro conjI impI)
  show "amenity_loop items [] = Inr (map JStr (present_names ams))"
    using assms by (simp add: amenity_loop_present)
  show "present_names ams = map fst (filter snd ams)"
    by (rule present_names_filter)
next
  assume a: "getattr l ''listing_amenities'' = Inr (JArr items)"
    and s: "store_db env url l = Inr r"
  from s show "col_amenities r = intercalate '','' (present_names ams)"
    unfolding store_db_def
    by (auto simp: a amenity_loop_present[OF assms] bind_exn_Inr_iff split: option.splits)
next
  assume "getattr l ''listing_amenities'' = Inr (JArr items)" and "well_formed l"
  with assms show "\<exists>r'. store_db env url l = Inr r' \<and> col_url r' = url
               \<and> col_amenities r' = intercalate '','' (present_names ams)"
    by (rule store_db_well_formed)
qed

lemmas demo_defs = demo_env_def demo_loads_def demo_payload_def demo_listing_def
  demo_photos_def demo_amenities_def

lemma store_db_demo:
  "store_db demo_env ''good'' (demo_listing (JStr ''Loft'') demo_photos) =
     Inr \<lparr>col_url = ''good'', col_name = JStr ''Loft'', col_market = JStr ''Denver'',
          col_rating = ''95'', col_review_count = ''12'', col_type = JStr ''Entire loft'',
          col_bed = JStr ''1 bed'', col_bath = JStr ''1 bath'', col_guest = JStr ''2 guests'',
          col_price = JStr ''80 USD'', col_photo_url = ''http://img/1.jpg'',
          col_description = JStr ''Quiet'', col_amenities = ''Wifi''\<rparr>"
  by (simp add: store_db_def demo_defs py_join_def)

lemma well_formed_demo: "well_formed (demo_listing (JStr ''Loft'') demo_photos)"
  by (simp add: well_formed_def bound_fields_def has_def demo_defs)

theorem amenities_are_present_names_witness:
  "list_all2 is_amenity
     [JObj [(''name'', JStr ''Wifi''), (''is_present'', JBool True)],
      JObj [(''name'', JStr ''Pool''), (''is_present'', JBool False)]]
     [(''Wifi'', True), (''Pool'', False)]
   \<and> getattr (demo_listing (JStr ''Loft'') demo_photos) ''listing_amenities'' =
        Inr (JArr [JObj [(''name'', JStr ''Wifi''), (''is_present'', JBool True)],
      JObj [(''name'', JStr ''Pool''), (''is_present'', JBool False)]])
   \<and> well_formed (demo_listing (JStr ''Loft'') demo_photos)
   \<and> amenity_loop
        [JObj [(''name'', JStr ''Wifi''), (''is_present'', JBool True)],
      JObj [(''name'', JStr ''Pool''), (''is_present'', JBool False)]] [] = Inr [JStr ''Wifi'']
   \<and> present_names [(''Wifi'', True), (''Pool'', False)] = [''Wifi'']
   \<and> store_db demo_env ''good'' (demo_listing (JStr ''Loft'') demo_photos) =
        Inr \<lparr>col_url = ''good'', col_name = JStr ''Loft'', col_market = JStr ''Denver'',
          col_rating = ''95'', col_review_count = ''12'', col_type = JStr ''Entire loft'',
          col_bed = JStr ''1 bed'', col_bath = JStr ''1 bath'', col_guest = JStr ''2 guests'',
          col_price = JStr ''80 USD'', col_photo_url = ''http://img/1.jpg'',
          col_description = JStr ''Quiet'', col_amenities = ''Wifi''\<rparr>
   \<and> (\<exists>r. store_db demo_env ''good'' (demo_listing (JStr ''Loft'') demo_photos) = Inr r
            \<and> col_url r = ''good'' \<and> col_amenities r = ''Wifi'')"
proof -
  let ?items = "[JObj [(''name'', JStr ''Wifi''), (''is_present'', JBool True)],
      JObj [(''name'', JStr ''Pool''), (''is_present'', JBool False)]]"
  let ?l = "demo_listing (JStr ''Loft'') demo_photos"
  have h: "list_all2 is_amenity ?items [(''Wifi'', True), (''Pool'', False)]"
    by (simp add: is_amenity_def)
  have g: "getattr ?l ''listing_amenities'' = Inr (JArr ?items)"
    by (simp add: demo_defs)
  have w: "well_formed ?l" by (rule well_formed_demo)
  note t = amenities_are_present_names [OF h, of ?l demo_env "''good''"]
  from t have c1: "amenity_loop ?items [] = Inr [JStr ''Wifi'']" by simp
  have c2: "present_names [(''Wifi'', True), (''Pool'', False)] = [''Wifi'']" by simp
  from t g w have "\<exists>r. store_db demo_env ''good'' ?l = Inr r \<and> col_url r = ''good''
      \<and> col_amenities r = intercalate '','' (present_names [(''Wifi'', True), (''Pool'', False)])"
    by blast
  then have c3: "\<exists>r. store_db demo_env ''good'' ?l = Inr r \<and> col_url r = ''good''
      \<and> col_amenities r = ''Wifi''"
    by simp
  show ?thesis
    by (intro conjI h g w c1 c2 c3 store_db_demo)
qed

lemma store_db_no_photo: "getattr l ''photos'' = Inr (JArr []) \<Longrightarrow> store_db env url l \<noteq> Inr r"
  unfolding store_db_def by (auto simp: bind_exn_Inr_iff)

text \<open>
  C10. \<open>__store_db\<close> reads only the first element of the photos list: with an empty list it
  raises whatever the other fields hold, a listing whose list is cut down to its first
  photo gives the same result, and the photo column of an inserted row is the cover URL of
  the first photo up to its first question mark.
\<close>

theorem store_db_first_photo_only:
  "(getattr l ''photos'' = Inr (JArr []) \<longrightarrow> (\<exists>e. store_db env url l = Inl e))
   \<and> (getattr l ''photos'' = Inr (JArr (p # ps)) \<longrightarrow>
        getattr l' ''photos'' = Inr (JArr [p]) \<longrightarrow>
        (\<forall>a. a \<noteq> ''photos'' \<longrightarrow> getattr l' a = getattr l a) \<longrightarrow>
        store_db env url l' = store_db env url l)
   \<and> (getattr l ''photos'' = Inr (JArr (p # ps)) \<longrightarrow>
        getattr p ''large_cover'' = Inr (JStr c) \<longrightarrow>
        store_db env url l = Inr r \<longrightarrow>
        col_photo_url r = takeWhile (\<lambda>x. x \<noteq> CHR ''?'') c)"
proof (intro conjI impI)
  assume "getattr l ''photos'' = Inr (JArr [])"
  then have "\<And>r. store_db env url l \<noteq> Inr r" by (rule store_db_no_photo)
  then show "\<exists>e. store_db env url l = Inl e" by (cases "store_db env url l") auto
next
  assume a: "getattr l ''photos'' = Inr (JArr (p # ps))" "getattr l' ''photos'' = Inr (JArr [p])"
    and b: "\<forall>a. a \<noteq> ''photos'' \<longrightarrow> getattr l' a = getattr l a"
  show "store_db env url l' = store_db env url l"
    unfolding store_db_def by (simp add: a b)
next
  assume a: "getattr l ''photos'' = Inr (JArr (p # ps))" "getattr p ''large_cover'' = Inr (JStr c)"
    and s: "store_db env url l = Inr r"
  from s show "col_photo_url r = takeWhile (\<lambda>x. x \<noteq> CHR ''?'') c"
    unfolding store_db_def
    by (auto simp: a split_on_first bind_exn_Inr_iff split: option.splits)
qed


theorem store_db_first_photo_only_witness:
  "getattr (demo_listing (JStr ''Loft'') (JArr [])) ''photos'' = Inr (JArr [])
   \<and> (\<exists>e. store_db demo_env ''nophoto'' (demo_listing (JStr ''Loft'') (JArr [])) = Inl e)
   \<and> getattr (demo_listing (JStr ''Loft'') demo_photos) ''photos'' =
        Inr (JArr [JObj [(''large_cover'', JStr ''http://img/1.jpg?aki_policy=large'')],
                   JObj [(''large_cover'', JStr ''http://img/2.jpg'')]])
   \<and> store_db demo_env ''good''
          (demo_listing (JStr ''Loft'')
             (JArr [JObj [(''large_cover'', JStr ''http://img/1.jpg?aki_policy=large'')]])) =
        store_db demo_env ''good'' (demo_listing (JStr ''Loft'') demo_photos)
   \<and> col_photo_url
        \<lparr>col_url = ''good'', col_name = JStr ''Loft'', col_market = JStr ''Denver'',
          col_rating = ''95'', col_review_count = ''12'', col_type = JStr ''Entire loft'',
          col_bed = JStr ''1 bed'', col_bath = JStr ''1 bath'', col_guest = JStr ''2 guests'',
          col_price = JStr ''80 USD'', col_photo_url = ''http://img/1.jpg'',
          col_description = JStr ''Quiet'', col_amenities = ''Wifi''\<rparr> = ''http://img/1.jpg''"
proof -
  let ?p = "JObj [(''large_cover'', JStr ''http://img/1.jpg?aki_policy=large'')]"
  let ?ps = "[JObj [(''large_cover'', JStr ''http://img/2.jpg'')]]"
  let ?l = "demo_listing (JStr ''Loft'') demo_photos"
  let ?l' = "demo_listing (JStr ''Loft'') (JArr [?p])"
  let ?m = "demo_listing (JStr ''Loft'') (JArr [])"
  have h0: "getattr ?m ''photos'' = Inr (JArr [])"
    by (simp add: demo_defs)
  have h1: "getattr ?l ''photos'' = Inr (JArr (?p # ?ps))"
    by (simp add: demo_defs)
  have h2: "getattr ?l' ''photos'' = Inr (JArr [?p])"
    by (simp add: demo_defs)
  have h3: "\<forall>a. a \<noteq> ''photos'' \<longrightarrow> getattr ?l' a = getattr ?l a"
    by (simp add: demo_defs)
  have h4: "getattr ?p ''large_cover'' = Inr (JStr ''http://img/1.jpg?aki_policy=large'')"
    by simp
  note t0 = store_db_first_photo_only [of ?m demo_env "''nophoto''"]
  note t1 = store_db_first_photo_only [of ?l demo_env "''good''" ?p ?ps ?l'
      "''http://img/1.jpg?aki_policy=large''"]
  from t0 h0 have c0: "\<exists>e. store_db demo_env ''nophoto'' ?m = Inl e" by blast
  from t1 h1 h2 h3 have c1: "store_db demo_env ''good'' ?l' = store_db demo_env ''good'' ?l" by blast
  from t1 h1 h4 store_db_demo have c2: "col_photo_url
        \<lparr>col_url = ''good'', col_name = JStr ''Loft'', col_market = JStr ''Denver'',
          col_rating = ''95'', col_review_count = ''12'', col_type = JStr ''Entire loft'',
          col_bed = JStr ''1 bed'', col_bath = JStr ''1 bath'', col_guest = JStr ''2 guests'',
          col_price = JStr ''80 USD'', col_photo_url = ''http://img/1.jpg'',
          col_description = JStr ''Quiet'', col_amenities = ''Wifi''\<rparr> =
        takeWhile (\<lambda>x. x \<noteq> CHR ''?'') ''http://img/1.jpg?aki_policy=large''" by blast
  from h0 c0 h1 c1 c2 show ?thesis by simp
qed

section \<open>The steps of the workers\<close>

lemma taken_append [simp]: "taken (xs @ ys) = taken xs @ taken ys"
  by (induction xs rule: taken.induct) simp_all

lemma get_full_site_json_taken: "taken (fst (get_full_site_json env page)) = []"
  by (simp add: get_full_site_json_def split: sum.splits option.splits)

lemma set_listing_taken: "taken (fst (set_listing env page)) = []"
  using get_full_site_json_taken[of env page]
  by (auto simp: set_listing_def get_listing_json_def split: sum.splits prod.splits)

lemma PropertyScraper_init_taken: "taken (fst (PropertyScraper_init env url)) = []"
  using set_listing_taken[of env "projr (set_full_site_html env url)"]
  by (auto simp: PropertyScraper_init_def split: sum.splits prod.splits)

lemma process_taken [simp]: "taken (fst (process env url)) = []"
  using PropertyScraper_init_taken[of env url]
  by (auto simp: process_def split: sum.splits prod.splits)


lemma process_cases:
  obtains (raised) evs e where "process env url = (evs, Inl e)" "taken evs = []"
  | (row) evs r where "process env url = (evs, Inr r)" "taken evs = []"
proof (cases "process env url")
  case (Pair evs res)
  then have "taken evs = []" using process_taken[of env url] by simp
  with Pair show ?thesis by (cases res) (auto intro: raised row)
qed

text \<open>The four kinds of step.\<close>

lemma step_finish:
  "i < length (threads d) \<Longrightarrow> threads d ! i = Idle \<Longrightarrow> queue d = [] \<Longrightarrow>
   worker_step env i d = d\<lparr>threads := (threads d)[i := Done]\<rparr>"
  by (simp add: worker_step_def)

lemma step_get:
  "i < length (threads d) \<Longrightarrow> threads d ! i = Idle \<Longrightarrow> queue d = url # q \<Longrightarrow>
   worker_step env i d =
     d\<lparr>queue := q, threads := (threads d)[i := Holding url], out := out d @ [Get i url]\<rparr>"
  by (simp add: worker_step_def)

lemma step_failed:
  "i < length (threads d) \<Longrightarrow> threads d ! i = Holding url \<Longrightarrow> process env url = (evs, Inl e) \<Longrightarrow>
   worker_step env i d = d\<lparr>threads := (threads d)[i := Died e], out := out d @ evs\<rparr>"
  by (simp add: worker_step_def)

lemma step_stored:
  "i < length (threads d) \<Longrightarrow> threads d ! i = Holding url \<Longrightarrow> process env url = (evs, Inr r) \<Longrightarrow>
   worker_step env i d =
     d\<lparr>db := db d @ [r], threads := (threads d)[i := Idle], out := out d @ evs\<rparr>"
  by (simp add: worker_step_def)

lemma step_ended:
  "\<not> (i < length (threads d) \<and> running (threads d ! i)) \<Longrightarrow> worker_step env i d = d"
  by (cases "threads d ! i") (auto simp: worker_step_def)

text \<open>Case analysis on the step a worker makes.\<close>

lemma worker_step_cases:
  obtains (ended) "worker_step env i d = d"
  | (finish) "i < length (threads d)" "threads d ! i = Idle" "queue d = []"
      "worker_step env i d = d\<lparr>threads := (threads d)[i := Done]\<rparr>"
  | (get) url q where "i < length (threads d)" "threads d ! i = Idle" "queue d = url # q"
      "worker_step env i d =
         d\<lparr>queue := q, threads := (threads d)[i := Holding url], out := out d @ [Get i url]\<rparr>"
  | (failed) url evs e where "i < length (threads d)" "threads d ! i = Holding url"
      "process env url = (evs, Inl e)" "taken evs = []"
      "worker_step env i d = d\<lparr>threads := (threads d)[i := Died e], out := out d @ evs\<rparr>"
  | (stored) url evs r where "i < length (threads d)" "threads d ! i = Holding url"
      "process env url = (evs, Inr r)" "taken evs = []"
      "worker_step env i d =
         d\<lparr>db := db d @ [r], threads := (threads d)[i := Idle], out := out d @ evs\<rparr>"
proof (cases "i < length (threads d) \<and> running (threads d ! i)")
  case False
  then show ?thesis using step_ended ended by blast
next
  case True
  then have i: "i < length (threads d)" by simp
  show ?thesis
  proof (cases "threads d ! i")
    case Idle
    show ?thesis
    proof (cases "queue d")
      case Nil
      with i Idle show ?thesis using step_finish finish by blast
    next
      case (Cons url q)
      with i Idle show ?thesis using step_get get by blast
    qed
  next
    case (Holding url)
    show ?thesis
    proof (cases rule: process_cases[of env url])
      case (raised evs e)
      with i Holding show ?thesis using step_failed failed by blast
    next
      case (row evs r)
      with i Holding show ?thesis using step_stored stored by blast
    qed
  next
    case Done
    with True show ?thesis by simp
  next
    case (Died e)
    with True show ?thesis by simp
  qed
qed

lemma length_threads_step [simp]: "length (threads (worker_step env i d)) = length (threads d)"
  by (cases rule: worker_step_cases[of env i d]) simp_all

lemma step_conn [simp]: "conn (worker_step env i d) = conn d"
  by (cases rule: worker_step_cases[of env i d]) simp_all

lemma step_taken:
  "taken (out (worker_step env i d)) @ queue (worker_step env i d) = taken (out d) @ queue d"
  by (cases rule: worker_step_cases[of env i d]) simp_all

lemma step_db_prefix: "prefix (db d) (db (worker_step env i d))"
  by (cases rule: worker_step_cases[of env i d]) simp_all

lemma step_out_prefix: "prefix (out d) (out (worker_step env i d))"
  by (cases rule: worker_step_cases[of env i d]) simp_all

lemma step_other_thread:
  "j \<noteq> i \<Longrightarrow> threads (worker_step env i d) ! j = threads d ! j"
  by (cases rule: worker_step_cases[of env i d]) simp_all

lemma step_ended_stays:
  assumes "\<not> running (threads d ! j)"
  shows "threads (worker_step env i d) ! j = threads d ! j"
proof (cases "j = i")
  case True
  with assms have "worker_step env i d = d" by (simp add: step_ended)
  then show ?thesis by simp
next
  case False
  then show ?thesis by (rule step_other_thread)
qed

section \<open>The wait for the threads\<close>

text \<open>One unfolding of the wait.\<close>

lemma join_threads_done: "live d = [] \<Longrightarrow> join_threads env sched d = d"
  by (subst join_threads.simps) simp

lemma join_threads_step:
  "live d \<noteq> [] \<Longrightarrow>
   join_threads env sched d =
     join_threads env (tl sched) (worker_step env (live d ! (next_choice sched mod length (live d))) d)"
  by (subst join_threads.simps) simp

text \<open>An invariant of the steps of running threads holds when the wait is over.\<close>

lemma join_threads_invariant:
  assumes "P d"
    and "\<And>d i. P d \<Longrightarrow> i < length (threads d) \<Longrightarrow> running (threads d ! i) \<Longrightarrow> P (worker_step env i d)"
  shows "P (join_threads env sched d)"
  using assms
proof (induction env sched d rule: join_threads.induct)
  case (1 env sched d)
  show ?case
  proof (cases "live d = []")
    case True
    with 1(2) show ?thesis by (simp add: join_threads_done)
  next
    case False
    let ?i = "live d ! (next_choice sched mod length (live d))"
    from False have "?i \<in> set (live d)" by simp
    then have "?i < length (threads d)" "running (threads d ! ?i)"
      using live_running by blast+
    with 1(2) have "P (worker_step env ?i d)" by (rule 1(3))
    then have "P (join_threads env (tl sched) (worker_step env ?i d))"
      by (rule 1(1)[OF False _ 1(3)])
    with False show ?thesis by (simp add: join_threads_step)
  qed
qed

lemma join_threads_ended: "live (join_threads env sched d) = []"
proof (induction env sched d rule: join_threads.induct)
  case (1 env sched d)
  then show ?case
    by (cases "live d = []") (simp_all add: join_threads_done join_threads_step)
qed

lemma live_empty_iff: "live d = [] \<longleftrightarrow> (\<forall>w \<in> set (threads d). \<not> running w)"
  by (auto simp: live_def filter_empty_conv all_set_conv_all_nth)

lemma join_threads_length [simp]:
  "length (threads (join_threads env sched d)) = length (threads d)"
  by (rule join_threads_invariant[where P = "\<lambda>d'. length (threads d') = length (threads d)"]) simp_all

lemma join_threads_conn [simp]: "conn (join_threads env sched d) = conn d"
  by (rule join_threads_invariant[where P = "\<lambda>d'. conn d' = conn d"]) simp_all

lemma join_threads_taken:
  "taken (out (join_threads env sched d)) @ queue (join_threads env sched d) = taken (out d) @ queue d"
  by (rule join_threads_invariant[where P = "\<lambda>d'. taken (out d') @ queue d' = taken (out d) @ queue d"])
     (simp_all add: step_taken)

lemma join_threads_db_prefix: "prefix (db d) (db (join_threads env sched d))"
proof (rule join_threads_invariant[where P = "\<lambda>d'. prefix (db d) (db d')"])
  show "prefix (db d) (db d)" by simp
next
  fix d' :: dm and i
  assume "prefix (db d) (db d')"
  moreover have "prefix (db d') (db (worker_step env i d'))" by (rule step_db_prefix)
  ultimately show "prefix (db d) (db (worker_step env i d'))" by (rule prefix_order.trans)
qed

lemma join_threads_out_prefix: "prefix (out d) (out (join_threads env sched d))"
proof (rule join_threads_invariant[where P = "\<lambda>d'. prefix (out d) (out d')"])
  show "prefix (out d) (out d)" by simp
next
  fix d' :: dm and i
  assume "prefix (out d) (out d')"
  moreover have "prefix (out d') (out (worker_step env i d'))" by (rule step_out_prefix)
  ultimately show "prefix (out d) (out (worker_step env i d'))" by (rule prefix_order.trans)
qed

lemma join_threads_ended_stays:
  assumes "\<not> running (threads d ! j)"
  shows "threads (join_threads env sched d) ! j = threads d ! j"
  by (rule join_threads_invariant[where P = "\<lambda>d'. threads d' ! j = threads d ! j"])
     (use assms in \<open>simp_all add: step_ended_stays\<close>)

text \<open>A thread leaves its loop only on the empty queue, and the queue is never refilled.\<close>

lemma not_in_update: "w \<notin> set xs \<Longrightarrow> w \<noteq> v \<Longrightarrow> w \<notin> set (xs[i := v])"
  using set_update_subset_insert[of xs i v] by auto

lemma step_done_queue:
  assumes "Done \<in> set (threads d) \<longrightarrow> queue d = []"
  shows "Done \<in> set (threads (worker_step env i d)) \<longrightarrow> queue (worker_step env i d) = []"
proof (cases "queue d = []")
  case True
  then show ?thesis by (cases rule: worker_step_cases[of env i d]) simp_all
next
  case False
  with assms have "Done \<notin> set (threads d)" by blast
  then show ?thesis
    by (cases rule: worker_step_cases[of env i d]) (simp_all add: not_in_update)
qed

lemma join_threads_done_queue:
  assumes "Done \<in> set (threads d) \<longrightarrow> queue d = []"
  shows "Done \<in> set (threads (join_threads env sched d)) \<longrightarrow> queue (join_threads env sched d) = []"
  by (rule join_threads_invariant[where P = "\<lambda>d'. Done \<in> set (threads d') \<longrightarrow> queue d' = []"])
     (use assms step_done_queue in \<open>blast+\<close>)

section \<open>DownloadManager.run\<close>

lemma start_threads_out:
  "out (start_threads d) =
     out d @
     (if 1 \<le> min (conn d) (int (length (queue d))) \<and> min (conn d) (int (length (queue d))) \<le> 10000
      then [] else [ErrWrite ''invalid number of concurrent connections'']) @
     [Print ''Scraping begins...'']"
  by (simp add: start_threads_def Let_def)

lemma start_threads_threads:
  "threads (start_threads d) =
     threads d @ replicate (nat (min (conn d) (int (length (queue d))))) Idle"
  by (simp add: start_threads_def Let_def)

lemma start_threads_queue [simp]: "queue (start_threads d) = queue d"
  by (simp add: start_threads_def Let_def)

lemma start_threads_db [simp]: "db (start_threads d) = db d"
  by (simp add: start_threads_def Let_def)

lemma start_threads_conn [simp]: "conn (start_threads d) = conn d"
  by (simp add: start_threads_def Let_def)

lemma start_threads_taken [simp]: "taken (out (start_threads d)) = taken (out d)"
  by (simp add: start_threads_out)

lemma run_empty:
  "queue d = [] \<Longrightarrow>
   run env sched d = (d\<lparr>out := out d @ [ErrWrite ''No URLs given'']\<rparr>, Some (SystemExit None))"
  by (simp add: run_def)

lemma run_nonempty:
  "queue d \<noteq> [] \<Longrightarrow> run env sched d = (join_threads env sched (start_threads d), None)"
  by (simp add: run_def)

text \<open>
  C8 (as the code has it). With an empty queue \<open>run\<close> writes \<open>No URLs given\<close> to the error
  stream and leaves by \<open>sys.exit()\<close> before any thread is started or any row written.
  \<open>sys.exit\<close> gets no argument, so the exit status of the process is 0.
\<close>

theorem run_no_urls:
  assumes "queue d = []"
  shows "run env sched d =
           (d\<lparr>out := out d @ [ErrWrite ''No URLs given'']\<rparr>, Some (SystemExit None))
         \<and> threads (fst (run env sched d)) = threads d
         \<and> db (fst (run env sched d)) = db d
         \<and> exit_status (snd (run env sched d)) = 0"
  using assms by (simp add: run_empty)

theorem run_no_urls_witness:
  "queue (demo_dm 10 []) = []
   \<and> run demo_env [] (demo_dm 10 []) =
       (\<lparr>db = [], conn = 10, urls = ''urls.txt'', queue = [], threads = [],
         out = [Print ''Processing urls...'', ErrWrite ''No URLs given'']\<rparr>,
        Some (SystemExit None))
   \<and> exit_status (snd (run demo_env [] (demo_dm 10 []))) = 0"
proof -
  have h: "queue (demo_dm 10 []) = []" by (simp add: demo_dm_def)
  from run_no_urls [OF h, of demo_env "[]"] h show ?thesis by (simp add: demo_dm_def)
qed

text \<open>The claim that the status is not zero fails on the empty queue.\<close>

theorem run_no_urls_exit_status_counterexample:
  "queue (demo_dm 10 []) = [] \<and> \<not> exit_status (snd (run demo_env [] (demo_dm 10 []))) \<noteq> 0"
  by (simp add: demo_dm_def run_def)

text \<open>
  C9 (as the code has it). When opening the input raises FileNotFoundError and the URL
  validator rejects the argument, nothing is put on the queue, and the run ends on the
  empty queue: no thread is started and the table is as the constructor left it.
\<close>

theorem input_not_found_not_url:
  assumes "open_file env file = Inl FileNotFoundError" and "\<not> validators_url env file"
  shows "process_input env file = Inr []
         \<and> main env sched file_db c file =
             (Some \<lparr>db = init_db file_db, conn = c, urls = file, queue = [], threads = [],
                    out = [Print ''Processing urls...'', ErrWrite ''No URLs given'']\<rparr>,
              Some (SystemExit None))"
  using assms by (simp add: process_input_def main_def DownloadManager_init_def run_def)

theorem input_not_found_not_url_witness:
  "open_file demo_env ''nothing'' = Inl FileNotFoundError
   \<and> \<not> validators_url demo_env ''nothing''
   \<and> process_input demo_env ''nothing'' = Inr []
   \<and> main demo_env [] None 10 ''nothing'' =
        (Some \<lparr>db = [], conn = 10, urls = ''nothing'', queue = [], threads = [],
               out = [Print ''Processing urls...'', ErrWrite ''No URLs given'']\<rparr>,
         Some (SystemExit None))"
proof -
  have h1: "open_file demo_env ''nothing'' = Inl FileNotFoundError" by (simp add: demo_env_def)
  have h2: "\<not> validators_url demo_env ''nothing''" by (simp add: demo_env_def)
  from input_not_found_not_url [OF h1 h2, of "[]" None 10] h1 h2 show ?thesis
    by (simp add: init_db_def)
qed

text \<open>
  An input that exists but cannot be opened raises another error than the one the
  constructor catches: no queue is built and \<open>run\<close> is never reached.
\<close>

theorem input_not_openable_counterexample:
  "open_file demo_env ''locked.txt'' = Inl PermissionError
   \<and> \<not> validators_url demo_env ''locked.txt''
   \<and> process_input demo_env ''locked.txt'' = Inl PermissionError
   \<and> main demo_env [] None 10 ''locked.txt'' = (None, Some PermissionError)"
  by (simp add: demo_env_def process_input_def main_def DownloadManager_init_def)

text \<open>
  C3. On a non-empty queue of \<open>n\<close> URLs and for a requested number \<open>c\<close> of connections
  that is not negative, \<open>run\<close> computes \<open>min c n\<close> and starts exactly that many threads, all
  idle on the one queue of the manager, which starting them leaves as it is; as many
  threads are there when \<open>run\<close> returns.
\<close>

theorem run_spawns:
  assumes "queue d \<noteq> []" and "threads d = []" and "0 \<le> conn d"
  shows "threads (start_threads d) = replicate (nat (min (conn d) (int (length (queue d))))) Idle
         \<and> int (length (threads (start_threads d))) = min (conn d) (int (length (queue d)))
         \<and> queue (start_threads d) = queue d
         \<and> run env sched d = (join_threads env sched (start_threads d), None)
         \<and> int (length (threads (fst (run env sched d)))) = min (conn d) (int (length (queue d)))"
proof -
  have t: "threads (start_threads d) = replicate (nat (min (conn d) (int (length (queue d))))) Idle"
    using assms(2) by (simp add: start_threads_threads)
  have r: "run env sched d = (join_threads env sched (start_threads d), None)"
    using assms(1) by (rule run_nonempty)
  from assms(3) have "0 \<le> min (conn d) (int (length (queue d)))" by simp
  with t r show ?thesis by simp
qed

theorem run_spawns_witness:
  "queue (demo_dm 10 [''good'', ''bad'', ''two'']) \<noteq> []
   \<and> threads (demo_dm 10 [''good'', ''bad'', ''two'']) = []
   \<and> 0 \<le> conn (demo_dm 10 [''good'', ''bad'', ''two''])
   \<and> threads (start_threads (demo_dm 10 [''good'', ''bad'', ''two''])) = [Idle, Idle, Idle]
   \<and> length (threads (fst (run demo_env [] (demo_dm 10 [''good'', ''bad'', ''two''])))) = 3"
proof -
  let ?d = "demo_dm 10 [''good'', ''bad'', ''two'']"
  have h1: "queue ?d \<noteq> []" by (simp add: demo_dm_def)
  have h2: "threads ?d = []" by (simp add: demo_dm_def)
  have h3: "0 \<le> conn ?d" by (simp add: demo_dm_def)
  have q: "min (conn ?d) (int (length (queue ?d))) = 3" by (simp add: demo_dm_def)
  note t = run_spawns [OF h1 h2 h3, of demo_env "[]"]
  from t q have c1: "threads (start_threads ?d) = [Idle, Idle, Idle]"
    by (simp add: numeral_3_eq_3)
  from t q have c2: "int (length (threads (fst (run demo_env [] ?d)))) = 3" by simp
  then have c3: "length (threads (fst (run demo_env [] ?d))) = 3" by simp
  show ?thesis by (intro conjI h1 h2 h3 c1 c3)
qed

section \<open>Runs in which every URL is stored\<close>

text \<open>A URL is stored when its scrape and its insert go through.\<close>

definition stores :: "env \<Rightarrow> string \<Rightarrow> bool" where
  "stores env url = (case process env url of (evs, Inl e) \<Rightarrow> False | (evs, Inr r) \<Rightarrow> True)"

fun fine :: "env \<Rightarrow> wstate \<Rightarrow> bool" where
  "fine env (Died e) = False"
| "fine env (Holding url) = stores env url"
| "fine env w = True"

fun holding :: "wstate \<Rightarrow> nat" where
  "holding (Holding url) = 1"
| "holding w = 0"

definition all_fine :: "env \<Rightarrow> nat \<Rightarrow> dm \<Rightarrow> bool" where
  "all_fine env n d =
     (list_all (fine env) (threads d) \<and> list_all (stores env) (queue d)
      \<and> length (db d) + length (queue d) + sum_list (map holding (threads d)) = n)"

lemma sum_list_map_update:
  fixes f :: "'a \<Rightarrow> nat"
  shows "i < length ws \<Longrightarrow> sum_list (map f (ws[i := w])) + f (ws ! i) = sum_list (map f ws) + f w"
proof (induction ws arbitrary: i)
  case Nil
  then show ?case by simp
next
  case (Cons a ws)
  then show ?case by (cases i) auto
qed

lemma list_all_update: "list_all P xs \<Longrightarrow> P v \<Longrightarrow> list_all P (xs[i := v])"
  using set_update_subset_insert[of xs i v] by (auto simp: list_all_iff)

lemma step_all_fine:
  assumes "all_fine env n d"
  shows "all_fine env n (worker_step env i d)"
proof (cases rule: worker_step_cases[of env i d])
  case ended
  with assms show ?thesis by simp
next
  case finish
  with assms sum_list_map_update[of i "threads d" holding Done] show ?thesis
    by (simp add: all_fine_def list_all_update)
next
  case (get url q)
  with assms sum_list_map_update[of i "threads d" holding "Holding url"] show ?thesis
    by (simp add: all_fine_def list_all_update)
next
  case (failed url evs e)
  from assms failed(1,2) have "stores env url"
    by (metis all_fine_def fine.simps(2) list_all_length)
  with failed(3) show ?thesis by (simp add: stores_def)
next
  case (stored url evs r)
  with assms sum_list_map_update[of i "threads d" holding Idle] show ?thesis
    by (simp add: all_fine_def list_all_update)
qed

lemma join_threads_all_fine:
  "all_fine env n d \<Longrightarrow> all_fine env n (join_threads env sched d)"
  by (rule join_threads_invariant[where P = "all_fine env n"]) (simp_all add: step_all_fine)

lemma ended_fine_is_Done: "\<not> running w \<Longrightarrow> fine env w \<Longrightarrow> w = Done"
  by (cases w) simp_all

lemma sum_holding_Done: "\<forall>w \<in> set ws. w = Done \<Longrightarrow> sum_list (map holding ws) = 0"
  by (induction ws) simp_all

text \<open>
  When every URL of the queue is stored and at least one thread was started, the wait
  ends with the queue empty and one more row for each URL.
\<close>

lemma join_threads_all_stored:
  assumes "list_all (stores env) (queue d)" and "threads d = replicate k Idle" and "0 < k"
  shows "queue (join_threads env sched d) = []
         \<and> length (db (join_threads env sched d)) = length (db d) + length (queue d)
         \<and> (\<forall>w \<in> set (threads (join_threads env sched d)). w = Done)"
proof -
  let ?d = "join_threads env sched d"
  have "sum_list (map holding (replicate k Idle)) = 0" by (induction k) simp_all
  with assms have "all_fine env (length (db d) + length (queue d)) d"
    by (simp add: all_fine_def list_all_iff)
  then have f: "all_fine env (length (db d) + length (queue d)) ?d"
    by (rule join_threads_all_fine)
  have "\<forall>w \<in> set (threads ?d). \<not> running w"
    using join_threads_ended[of env sched d] by (simp add: live_empty_iff)
  with f have dn: "\<forall>w \<in> set (threads ?d). w = Done"
    using ended_fine_is_Done by (auto simp: all_fine_def list_all_iff)
  have "length (threads ?d) = k" using assms(2) by simp
  with assms(3) dn have "Done \<in> set (threads ?d)"
    by (metis length_greater_0_conv last_in_set)
  moreover have "Done \<in> set (threads d) \<longrightarrow> queue d = []" using assms(2) by auto
  ultimately have q: "queue ?d = []" using join_threads_done_queue by blast
  from f q dn sum_holding_Done[of "threads ?d"] show ?thesis by (simp add: all_fine_def)
qed

section \<open>The pool\<close>

lemmas scrape_defs = process_def PropertyScraper_init_def set_full_site_html_def set_listing_def
  get_listing_json_def get_full_site_json_def json2obj_def py_index_def py_slice_def

lemma process_good:
  "process demo_env ''good'' =
     ([], Inr \<lparr>col_url = ''good'', col_name = JStr ''Loft'', col_market = JStr ''Denver'',
          col_rating = ''95'', col_review_count = ''12'', col_type = JStr ''Entire loft'',
          col_bed = JStr ''1 bed'', col_bath = JStr ''1 bath'', col_guest = JStr ''2 guests'',
          col_price = JStr ''80 USD'', col_photo_url = ''http://img/1.jpg'',
          col_description = JStr ''Quiet'', col_amenities = ''Wifi''\<rparr>)"
proof -
  have "PropertyScraper_init demo_env ''good'' =
      ([], Inr \<lparr>site_url = ''good'', html = ''good'',
                listing = demo_listing (JStr ''Loft'') demo_photos\<rparr>)"
    by (simp add: scrape_defs demo_defs)
  then show ?thesis by (simp add: process_def store_db_demo)
qed

lemma process_bad: "process demo_env ''bad'' = ([], Inl JSONDecodeError)"
  by (simp add: scrape_defs demo_env_def demo_loads_def)

lemma process_two:
  "process demo_env ''two'' =
     ([ErrWrite ''Experiencing throttling from Airbnb. Stopping.''], Inl (SystemExit None))"
  by (simp add: scrape_defs demo_env_def)

lemma process_nofield: "process demo_env ''nofield'' = ([], Inl (AttributeError ''name''))"
proof -
  have "PropertyScraper_init demo_env ''nofield'' =
      ([], Inr \<lparr>site_url = ''nofield'', html = ''nofield'',
                listing = JObj [(''market'', JStr ''Denver''), (''listing_amenities'', JArr [])]\<rparr>)"
    by (simp add: scrape_defs demo_env_def demo_loads_def demo_payload_def)
  then show ?thesis by (simp add: process_def store_db_def)
qed

lemma stores_good: "stores demo_env ''good''"
  by (simp add: stores_def process_good)

text \<open>
  C1 (as the code has it). On a non-empty queue and for every schedule, \<open>run\<close> returns
  normally, once every thread has ended. The URLs the workers took, in the order they took
  them, followed by the URLs left on the queue, are the queue at the start: no URL is taken
  twice or put back. A URL is left on the queue only when every thread was ended by an
  exception or an exit. When at least one connection is requested and every URL of the
  queue can be stored, the queue is drained, every URL is taken exactly once and one row is
  added for each.
\<close>

theorem run_takes_each_url_at_most_once:
  assumes "queue d \<noteq> []" and "threads d = []" and "taken (out d) = []"
  shows "snd (run env sched d) = None
         \<and> taken (out (fst (run env sched d))) @ queue (fst (run env sched d)) = queue d
         \<and> (\<forall>w \<in> set (threads (fst (run env sched d))). \<not> running w)
         \<and> (queue (fst (run env sched d)) = []
              \<or> (\<forall>w \<in> set (threads (fst (run env sched d))). \<exists>e. w = Died e))
         \<and> (1 \<le> conn d \<and> list_all (stores env) (queue d) \<longrightarrow>
              queue (fst (run env sched d)) = []
              \<and> taken (out (fst (run env sched d))) = queue d
              \<and> length (db (fst (run env sched d))) = length (db d) + length (queue d))"
proof -
  let ?s = "start_threads d"
  let ?d = "join_threads env sched ?s"
  have r: "run env sched d = (?d, None)" using assms(1) by (rule run_nonempty)
  have t: "taken (out ?d) @ queue ?d = queue d"
    using join_threads_taken[of env sched ?s] assms(3) by simp
  have e: "\<forall>w \<in> set (threads ?d). \<not> running w"
    using join_threads_ended[of env sched ?s] by (simp add: live_empty_iff)
  have "Done \<in> set (threads ?s) \<longrightarrow> queue ?s = []"
    using assms(2) by (simp add: start_threads_threads)
  then have dq: "Done \<in> set (threads ?d) \<longrightarrow> queue ?d = []"
    by (rule join_threads_done_queue)
  have a: "queue ?d = [] \<or> (\<forall>w \<in> set (threads ?d). \<exists>e. w = Died e)"
  proof (cases "queue ?d = []")
    case True
    then show ?thesis by simp
  next
    case False
    with dq have "Done \<notin> set (threads ?d)" by blast
    with e have "\<forall>w \<in> set (threads ?d). \<exists>e. w = Died e"
      by (metis running.simps(1,2) wstate.exhaust)
    then show ?thesis by simp
  qed
  have b: "queue ?d = [] \<and> taken (out ?d) = queue d
           \<and> length (db ?d) = length (db d) + length (queue d)"
    if "1 \<le> conn d \<and> list_all (stores env) (queue d)"
  proof -
    let ?k = "nat (min (conn d) (int (length (queue d))))"
    from that assms(1) have k: "0 < ?k" by (cases "queue d") auto
    have th: "threads ?s = replicate ?k Idle" using assms(2) by (simp add: start_threads_threads)
    from that have "list_all (stores env) (queue ?s)" by simp
    from join_threads_all_stored[OF this th k, of sched] t show ?thesis by simp
  qed
  from r t e a b show ?thesis by simp
qed

theorem run_takes_each_url_at_most_once_witness:
  "queue (demo_dm 10 [''good'', ''good'', ''good'']) \<noteq> []
   \<and> threads (demo_dm 10 [''good'', ''good'', ''good'']) = []
   \<and> taken (out (demo_dm 10 [''good'', ''good'', ''good''])) = []
   \<and> 1 \<le> conn (demo_dm 10 [''good'', ''good'', ''good''])
   \<and> list_all (stores demo_env) (queue (demo_dm 10 [''good'', ''good'', ''good'']))
   \<and> snd (run demo_env [2, 0, 1] (demo_dm 10 [''good'', ''good'', ''good''])) = None
   \<and> queue (fst (run demo_env [2, 0, 1] (demo_dm 10 [''good'', ''good'', ''good'']))) = []
   \<and> taken (out (fst (run demo_env [2, 0, 1] (demo_dm 10 [''good'', ''good'', ''good''])))) =
       [''good'', ''good'', ''good'']
   \<and> length (db (fst (run demo_env [2, 0, 1] (demo_dm 10 [''good'', ''good'', ''good''])))) = 3"
proof -
  let ?d = "demo_dm 10 [''good'', ''good'', ''good'']"
  have h1: "queue ?d \<noteq> []" by (simp add: demo_dm_def)
  have h2: "threads ?d = []" by (simp add: demo_dm_def)
  have h3: "taken (out ?d) = []" by (simp add: demo_dm_def)
  have h4: "1 \<le> conn ?d" by (simp add: demo_dm_def)
  have h5: "list_all (stores demo_env) (queue ?d)" by (simp add: demo_dm_def stores_good)
  have q: "queue ?d = [''good'', ''good'', ''good'']" "db ?d = []" by (simp_all add: demo_dm_def)
  from run_takes_each_url_at_most_once [OF h1 h2 h3, of demo_env "[2, 0, 1]"] h4 h5
  have "snd (run demo_env [2, 0, 1] ?d) = None
      \<and> queue (fst (run demo_env [2, 0, 1] ?d)) = []
      \<and> taken (out (fst (run demo_env [2, 0, 1] ?d))) = queue ?d
      \<and> length (db (fst (run demo_env [2, 0, 1] ?d))) = length (db ?d) + length (queue ?d)"
    by blast
  with h1 h2 h3 h4 h5 show ?thesis by (simp add: q)
qed

text \<open>
  With one connection, a first page whose payload cannot be decoded ends the only thread:
  \<open>run\<close> returns with the second URL never taken, and no throttling message was written.
\<close>

lemmas run_eval = run_def start_threads_def Let_def demo_dm_def join_threads_step
  join_threads_done live_def worker_step_def next_choice_def

theorem run_undecodable_page_counterexample:
  "queue (demo_dm 1 [''bad'', ''good'']) \<noteq> []
   \<and> snd (run demo_env [] (demo_dm 1 [''bad'', ''good''])) = None
   \<and> queue (fst (run demo_env [] (demo_dm 1 [''bad'', ''good'']))) = [''good'']
   \<and> taken (out (fst (run demo_env [] (demo_dm 1 [''bad'', ''good''])))) = [''bad'']
   \<and> ErrWrite ''Experiencing throttling from Airbnb. Stopping.''
        \<notin> set (out (fst (run demo_env [] (demo_dm 1 [''bad'', ''good'']))))"
  by (simp add: run_eval process_bad)

section \<open>Errors in a worker\<close>

text \<open>
  The conditions of the specification on the page of a URL. Throttled: fewer than three
  application/json script elements. ExtractionFailed: the third element is there and has a
  text, and \<open>json.loads\<close> rejects the text without its markers. FieldMissing: the listing was
  decoded and lacks a key or a field that is read on the way to the row.
\<close>

definition throttled :: "env \<Rightarrow> string \<Rightarrow> bool" where
  "throttled env url =
     (case requests_get env url of
        Inl e \<Rightarrow> False
      | Inr page \<Rightarrow>
          (case script_texts env page of Inl e \<Rightarrow> False | Inr items \<Rightarrow> length items < 3))"

definition extraction_failed :: "env \<Rightarrow> string \<Rightarrow> bool" where
  "extraction_failed env url =
     (case requests_get env url of
        Inl e \<Rightarrow> False
      | Inr page \<Rightarrow>
          (case script_texts env page of
             Inl e \<Rightarrow> False
           | Inr items \<Rightarrow>
               2 < length items \<and>
               (case items ! 2 of
                  None \<Rightarrow> False
                | Some t \<Rightarrow> json_loads env (drop 4 (rev (drop 3 (rev t)))) = None)))"

definition required_fields :: "string list" where
  "required_fields =
     [''listing_amenities'', ''name'', ''market'', ''review_details_interface'',
      ''room_and_property_type'', ''bed_label'', ''bathroom_label'', ''guest_label'',
      ''price_formatted_for_embed'', ''photos'', ''description'']"

text \<open>
  An item of the amenity list lacks \<open>is_present\<close>, or is present and lacks \<open>name\<close>, the
  two fields the loop of \<open>__store_db\<close> reads from it.
\<close>

definition amenity_lacks :: "json \<Rightarrow> bool" where
  "amenity_lacks a =
     (case getattr a ''is_present'' of
        Inl e \<Rightarrow> True
      | Inr p \<Rightarrow> py_truthy p \<and> \<not> has a ''name'')"

text \<open>
  The listing lacks a field the row is built from: one of its own fields, the score or the
  count of its review details, the cover of its first photo, or a field of an amenity.
\<close>

definition field_absent :: "json \<Rightarrow> bool" where
  "field_absent l =
     (list_ex (\<lambda>f. \<not> has l f) required_fields
      \<or> (case getattr l ''review_details_interface'' of
            Inl e \<Rightarrow> False
          | Inr rdi \<Rightarrow> \<not> has rdi ''review_score'' \<or> \<not> has rdi ''review_count'')
      \<or> (case getattr l ''photos'' of
            Inl e \<Rightarrow> False
          | Inr photos \<Rightarrow>
              (case getitem_int photos 0 of
                 Inl e \<Rightarrow> False
               | Inr photo \<Rightarrow> \<not> has photo ''large_cover''))
      \<or> (case getattr l ''listing_amenities'' of
            Inl e \<Rightarrow> False
          | Inr amenities \<Rightarrow>
              (case py_iter amenities of
                 Inl e \<Rightarrow> False
               | Inr items \<Rightarrow> list_ex amenity_lacks items)))"

text \<open>The decoded payload is an object without \<open>bootstrapData\<close>, or that has no \<open>listing\<close>.\<close>

fun is_KeyError :: "exn \<Rightarrow> bool" where
  "is_KeyError (KeyError k) = True"
| "is_KeyError e = False"

definition key_absent :: "json \<Rightarrow> bool" where
  "key_absent j =
     (case getitem_key j ''bootstrapData'' of
        Inl e \<Rightarrow> is_KeyError e
      | Inr b \<Rightarrow> (case getitem_key b ''listing'' of Inl e \<Rightarrow> is_KeyError e | Inr l \<Rightarrow> False))"

definition field_missing :: "env \<Rightarrow> string \<Rightarrow> bool" where
  "field_missing env url =
     ((case requests_get env url of
         Inl e \<Rightarrow> False
       | Inr page \<Rightarrow>
           (case get_full_site_json env page of
              (evs, Inl e) \<Rightarrow> False
            | (evs, Inr j) \<Rightarrow> key_absent j))
      \<or> (case PropertyScraper_init env url of
            (evs, Inl e) \<Rightarrow> False
          | (evs, Inr ps) \<Rightarrow> field_absent (listing ps)))"

lemma throttled_process:
  assumes "throttled env url"
  shows "process env url =
           ([ErrWrite ''Experiencing throttling from Airbnb. Stopping.''], Inl (SystemExit None))"
proof -
  from assms obtain page items where
    "requests_get env url = Inr page" "script_texts env page = Inr items" "length items < 3"
    by (auto simp: throttled_def split: sum.splits)
  then show ?thesis
    by (simp add: process_def PropertyScraper_init_def set_full_site_html_def set_listing_def
        get_listing_json_def get_full_site_json_def py_index_2)
qed

lemma extraction_failed_process:
  assumes "extraction_failed env url"
  shows "process env url = ([], Inl JSONDecodeError)"
proof -
  from assms obtain page items t where
    "requests_get env url = Inr page" "script_texts env page = Inr items" "2 < length items"
    "items ! 2 = Some t" "json_loads env (drop 4 (rev (drop 3 (rev t)))) = None"
    by (auto simp: extraction_failed_def split: sum.splits option.splits)
  then show ?thesis
    by (simp add: process_def PropertyScraper_init_def set_full_site_html_def set_listing_def
        get_listing_json_def get_full_site_json_def py_index_2 py_slice_4_minus_3)
qed

lemma amenity_loop_Cons:
  "amenity_loop (a # items) acc = Inr r \<Longrightarrow>
   \<not> amenity_lacks a \<and> (\<exists>acc'. amenity_loop items acc' = Inr r)"
  by (auto simp: amenity_lacks_def has_def split: sum.splits if_splits)

lemma amenity_loop_reads:
  "amenity_loop items acc = Inr r \<Longrightarrow> \<not> list_ex amenity_lacks items"
proof (induction items arbitrary: acc)
  case Nil
  then show ?case by simp
next
  case (Cons a items)
  from Cons.prems obtain acc' where "\<not> amenity_lacks a" "amenity_loop items acc' = Inr r"
    using amenity_loop_Cons by blast
  with Cons.IH show ?case by simp
qed

lemma store_db_reads:
  assumes "store_db env url l = Inr r"
  shows "\<not> field_absent l"
proof -
  from assms obtain amenities items acc rdi score cnt photos photo cover where
    a: "getattr l ''listing_amenities'' = Inr amenities" "py_iter amenities = Inr items"
       "amenity_loop items [] = Inr acc"
    and r: "getattr l ''review_details_interface'' = Inr rdi"
       "getattr rdi ''review_score'' = Inr score" "getattr rdi ''review_count'' = Inr cnt"
    and p: "getattr l ''photos'' = Inr photos" "getitem_int photos 0 = Inr photo"
       "getattr photo ''large_cover'' = Inr cover"
    unfolding store_db_def by (auto simp: bind_exn_Inr_iff)
  from assms have f: "\<forall>g \<in> set required_fields. has l g"
    unfolding store_db_def required_fields_def by (auto simp: bind_exn_Inr_iff has_iff)
  from a(3) have "\<not> list_ex amenity_lacks items" by (rule amenity_loop_reads)
  with a r p f show ?thesis
    by (simp add: field_absent_def has_iff list_ex_iff)
qed

lemma key_absent_raises:
  assumes "key_absent j"
  shows "\<exists>e. bind_exn (getitem_key j ''bootstrapData'') (\<lambda>b. getitem_key b ''listing'') = Inl e
              \<and> e \<noteq> MissingSchema"
  using assms by (auto simp: key_absent_def split: sum.splits elim: is_KeyError.elims)

lemma field_missing_process:
  assumes "field_missing env url"
  shows "\<exists>evs e. process env url = (evs, Inl e)"
proof -
  let ?key = "case requests_get env url of
                Inl e \<Rightarrow> False
              | Inr page \<Rightarrow>
                  (case get_full_site_json env page of
                     (evs, Inl e) \<Rightarrow> False
                   | (evs, Inr j) \<Rightarrow> key_absent j)"
  let ?field = "case PropertyScraper_init env url of
                  (evs, Inl e) \<Rightarrow> False
                | (evs, Inr ps) \<Rightarrow> field_absent (listing ps)"
  from assms have "?key \<or> ?field" by (simp add: field_missing_def)
  then show ?thesis
  proof
    assume k: ?key
    then obtain page where 1: "requests_get env url = Inr page"
      by (cases "requests_get env url") auto
    obtain evs res where 2: "get_full_site_json env page = (evs, res)"
      by (cases "get_full_site_json env page")
    from k 1 2 obtain j where 3: "res = Inr j" "key_absent j" by (cases res) auto
    from 3(2) obtain e where
      "bind_exn (getitem_key j ''bootstrapData'') (\<lambda>b. getitem_key b ''listing'') = Inl e"
      "e \<noteq> MissingSchema"
      using key_absent_raises by blast
    with 1 2 3(1) show ?thesis
      by (simp add: process_def PropertyScraper_init_def set_full_site_html_def set_listing_def
          get_listing_json_def)
  next
    assume f: ?field
    obtain evs res where 1: "PropertyScraper_init env url = (evs, res)"
      by (cases "PropertyScraper_init env url")
    from f 1 obtain ps where 2: "res = Inr ps" "field_absent (listing ps)" by (cases res) auto
    from 2(2) have "\<And>r. store_db env url (listing ps) \<noteq> Inr r"
      using store_db_reads by blast
    then obtain e where "store_db env url (listing ps) = Inl e"
      by (cases "store_db env url (listing ps)") auto
    with 1 2(1) show ?thesis by (simp add: process_def)
  qed
qed

text \<open>The nested reads count: a listing without a score, a cover or an amenity's flag.\<close>

lemma field_absent_score:
  "getattr l ''review_details_interface'' = Inr rdi \<Longrightarrow>
   \<not> has rdi ''review_score'' \<or> \<not> has rdi ''review_count'' \<Longrightarrow> field_absent l"
  by (simp add: field_absent_def)

lemma field_absent_cover:
  "getattr l ''photos'' = Inr photos \<Longrightarrow> getitem_int photos 0 = Inr photo \<Longrightarrow>
   \<not> has photo ''large_cover'' \<Longrightarrow> field_absent l"
  by (simp add: field_absent_def)

lemma field_absent_amenity:
  assumes "getattr l ''listing_amenities'' = Inr (JArr items)" and "a \<in> set items"
    and "\<not> has a ''is_present''"
  shows "field_absent l"
proof -
  from assms(3) have "amenity_lacks a"
    by (simp add: amenity_lacks_def has_def split: sum.splits)
  with assms(2) have "list_ex amenity_lacks items" by (auto simp: list_ex_iff)
  with assms(1) show ?thesis by (simp add: field_absent_def)
qed

lemma field_missing_nested:
  "PropertyScraper_init env url = (evs, Inr ps) \<Longrightarrow> field_absent (listing ps) \<Longrightarrow>
   field_missing env url"
  by (simp add: field_missing_def)

lemma Died_stays:
  "threads d ! i = Died e \<Longrightarrow> threads (join_threads env sched d) ! i = Died e"
  using join_threads_ended_stays[of d i env sched] by simp

text \<open>
  C7 (as the code has it). A URL whose payload cannot be decoded, or whose listing lacks a
  field the row is built from, raises in the worker that holds it. No row is written for
  that URL, the queue and the other threads are untouched, and the thread of that worker
  has ended for good: it takes no further URL.
\<close>

theorem content_error_ends_worker:
  assumes "extraction_failed env url \<or> field_missing env url"
    and "i < length (threads d)" and "threads d ! i = Holding url"
  shows "\<exists>evs e. process env url = (evs, Inl e)
           \<and> worker_step env i d = d\<lparr>threads := (threads d)[i := Died e], out := out d @ evs\<rparr>
           \<and> db (worker_step env i d) = db d
           \<and> queue (worker_step env i d) = queue d
           \<and> (\<forall>j. j \<noteq> i \<longrightarrow> threads (worker_step env i d) ! j = threads d ! j)
           \<and> threads (join_threads env sched (worker_step env i d)) ! i = Died e"
proof -
  from assms(1) obtain evs e where p: "process env url = (evs, Inl e)"
    using extraction_failed_process field_missing_process by blast
  with assms(2,3) have s: "worker_step env i d = d\<lparr>threads := (threads d)[i := Died e], out := out d @ evs\<rparr>"
    by (rule step_failed)
  with assms(2) have "threads (worker_step env i d) ! i = Died e" by simp
  then have "threads (join_threads env sched (worker_step env i d)) ! i = Died e"
    by (rule Died_stays)
  with p s show ?thesis by (simp add: step_other_thread)
qed

lemma field_missing_nofield: "field_missing demo_env ''nofield''"
proof -
  have "PropertyScraper_init demo_env ''nofield'' =
      ([], Inr \<lparr>site_url = ''nofield'', html = ''nofield'',
                listing = JObj [(''market'', JStr ''Denver''), (''listing_amenities'', JArr [])]\<rparr>)"
    by (simp add: scrape_defs demo_env_def demo_loads_def demo_payload_def)
  then show ?thesis
    by (simp add: field_missing_def field_absent_def required_fields_def has_def)
qed

lemma throttled_two: "throttled demo_env ''two''"
  by (simp add: throttled_def demo_env_def)

theorem content_error_ends_worker_witness:
  "(extraction_failed demo_env ''nofield'' \<or> field_missing demo_env ''nofield'')
   \<and> 0 < length (threads (demo_dm 2 [''good''] \<lparr>threads := [Holding ''nofield'', Idle]\<rparr>))
   \<and> threads (demo_dm 2 [''good''] \<lparr>threads := [Holding ''nofield'', Idle]\<rparr>) ! 0 = Holding ''nofield''
   \<and> worker_step demo_env 0 (demo_dm 2 [''good''] \<lparr>threads := [Holding ''nofield'', Idle]\<rparr>) =
        \<lparr>db = [], conn = 2, urls = ''urls.txt'', queue = [''good''],
          threads = [Died (AttributeError ''name''), Idle], out = [Print ''Processing urls...'']\<rparr>
   \<and> threads (join_threads demo_env [1, 1, 1]
        (worker_step demo_env 0 (demo_dm 2 [''good''] \<lparr>threads := [Holding ''nofield'', Idle]\<rparr>))) ! 0 =
        Died (AttributeError ''name'')"
proof -
  let ?d = "demo_dm 2 [''good''] \<lparr>threads := [Holding ''nofield'', Idle]\<rparr>"
  have h1: "extraction_failed demo_env ''nofield'' \<or> field_missing demo_env ''nofield''"
    by (simp add: field_missing_nofield)
  have h2: "0 < length (threads ?d)" by (simp add: demo_dm_def)
  have h3: "threads ?d ! 0 = Holding ''nofield''" by (simp add: demo_dm_def)
  from content_error_ends_worker [OF h1 h2 h3, of "[1, 1, 1]"] obtain evs e where
    p: "process demo_env ''nofield'' = (evs, Inl e)"
    and s: "worker_step demo_env 0 ?d = ?d\<lparr>threads := (threads ?d)[0 := Died e], out := out ?d @ evs\<rparr>"
    and j: "threads (join_threads demo_env [1, 1, 1] (worker_step demo_env 0 ?d)) ! 0 = Died e"
    by blast
  from p have "evs = []" "e = AttributeError ''name''" by (simp_all add: process_nofield)
  with s j h1 h2 h3 show ?thesis by (simp add: demo_dm_def)
qed

text \<open>
  With one connection the worker does not continue after a listing without a name: the
  second URL stays on the queue.
\<close>

theorem content_error_stops_worker_counterexample:
  "field_missing demo_env ''nofield''
   \<and> threads (fst (run demo_env [] (demo_dm 1 [''nofield'', ''good'']))) = [Died (AttributeError ''name'')]
   \<and> queue (fst (run demo_env [] (demo_dm 1 [''nofield'', ''good'']))) = [''good'']
   \<and> taken (out (fst (run demo_env [] (demo_dm 1 [''nofield'', ''good''])))) = [''nofield'']
   \<and> db (fst (run demo_env [] (demo_dm 1 [''nofield'', ''good'']))) = []"
  by (simp add: field_missing_nofield run_eval process_nofield)

text \<open>
  C2 (as the code has it). When the page of a URL has fewer than three application/json
  script elements, the worker that holds the URL writes the throttling message to the error
  stream and SystemExit ends its thread: no row is written for the URL, the rows written
  before stay in the table, and the thread has ended for good. \<open>sys.exit\<close> gets no status
  and \<open>run\<close> returns normally on every non-empty queue, so the exit status is 0.
\<close>

theorem throttled_ends_worker:
  assumes "throttled env url" and "i < length (threads d)" and "threads d ! i = Holding url"
  shows "worker_step env i d =
           d\<lparr>threads := (threads d)[i := Died (SystemExit None)],
             out := out d @ [ErrWrite ''Experiencing throttling from Airbnb. Stopping.'']\<rparr>
         \<and> db (worker_step env i d) = db d
         \<and> prefix (db d) (db (join_threads env sched (worker_step env i d)))
         \<and> threads (join_threads env sched (worker_step env i d)) ! i = Died (SystemExit None)
         \<and> (queue d0 \<noteq> [] \<longrightarrow>
              snd (run env sched d0) = None \<and> exit_status (snd (run env sched d0)) = 0)"
proof -
  from assms(1) have p: "process env url =
      ([ErrWrite ''Experiencing throttling from Airbnb. Stopping.''], Inl (SystemExit None))"
    by (rule throttled_process)
  with assms(2,3) have s: "worker_step env i d =
      d\<lparr>threads := (threads d)[i := Died (SystemExit None)],
        out := out d @ [ErrWrite ''Experiencing throttling from Airbnb. Stopping.'']\<rparr>"
    by (rule step_failed)
  with assms(2) have "threads (worker_step env i d) ! i = Died (SystemExit None)" by simp
  then have j: "threads (join_threads env sched (worker_step env i d)) ! i = Died (SystemExit None)"
    by (rule Died_stays)
  have "prefix (db (worker_step env i d)) (db (join_threads env sched (worker_step env i d)))"
    by (rule join_threads_db_prefix)
  with s have r: "prefix (db d) (db (join_threads env sched (worker_step env i d)))" by simp
  from s j r show ?thesis by (simp add: run_nonempty)
qed

theorem throttled_ends_worker_witness:
  "throttled demo_env ''two''
   \<and> 0 < length (threads (demo_dm 2 [''good''] \<lparr>threads := [Holding ''two'', Idle]\<rparr>))
   \<and> threads (demo_dm 2 [''good''] \<lparr>threads := [Holding ''two'', Idle]\<rparr>) ! 0 = Holding ''two''
   \<and> queue (demo_dm 2 [''two'', ''good'']) \<noteq> []
   \<and> worker_step demo_env 0 (demo_dm 2 [''good''] \<lparr>threads := [Holding ''two'', Idle]\<rparr>) =
        \<lparr>db = [], conn = 2, urls = ''urls.txt'', queue = [''good''],
          threads = [Died (SystemExit None), Idle],
          out = [Print ''Processing urls...'',
                 ErrWrite ''Experiencing throttling from Airbnb. Stopping.'']\<rparr>
   \<and> threads (join_threads demo_env [1, 1, 1]
        (worker_step demo_env 0 (demo_dm 2 [''good''] \<lparr>threads := [Holding ''two'', Idle]\<rparr>))) ! 0 =
        Died (SystemExit None)
   \<and> exit_status (snd (run demo_env [1, 1, 1] (demo_dm 2 [''two'', ''good'']))) = 0"
proof -
  let ?d = "demo_dm 2 [''good''] \<lparr>threads := [Holding ''two'', Idle]\<rparr>"
  have h1: "throttled demo_env ''two''" by (rule throttled_two)
  have h2: "0 < length (threads ?d)" by (simp add: demo_dm_def)
  have h3: "threads ?d ! 0 = Holding ''two''" by (simp add: demo_dm_def)
  have h4: "queue (demo_dm 2 [''two'', ''good'']) \<noteq> []" by (simp add: demo_dm_def)
  note t = throttled_ends_worker [OF h1 h2 h3, of "[1, 1, 1]" "demo_dm 2 [''two'', ''good'']"]
  from t have "worker_step demo_env 0 ?d =
          ?d\<lparr>threads := (threads ?d)[0 := Died (SystemExit None)],
             out := out ?d @ [ErrWrite ''Experiencing throttling from Airbnb. Stopping.'']\<rparr>"
    by (rule conjunct1)
  then have c1: "worker_step demo_env 0 ?d =
        \<lparr>db = [], conn = 2, urls = ''urls.txt'', queue = [''good''],
          threads = [Died (SystemExit None), Idle],
          out = [Print ''Processing urls...'',
                 ErrWrite ''Experiencing throttling from Airbnb. Stopping.'']\<rparr>"
    by (simp add: demo_dm_def)
  from t have c2: "threads (join_threads demo_env [1, 1, 1] (worker_step demo_env 0 ?d)) ! 0 =
        Died (SystemExit None)"
    by (elim conjE)
  from t h4 have c3: "exit_status (snd (run demo_env [1, 1, 1] (demo_dm 2 [''two'', ''good'']))) = 0"
    by (elim conjE) (rule conjunct2, erule mp)
  show ?thesis
    by (intro conjI h1 h2 h3 h4 c1 c2 c3)
qed

text \<open>
  With two connections, the second worker takes and stores a URL after the first one met
  the throttled page, and the process ends with status 0.
\<close>

theorem throttled_run_goes_on_counterexample:
  "throttled demo_env ''two''
   \<and> out (fst (run demo_env [0, 0, 1, 1] (demo_dm 2 [''two'', ''good'']))) =
       [Print ''Processing urls...'', Print ''Scraping begins...'', Get 0 ''two'',
        ErrWrite ''Experiencing throttling from Airbnb. Stopping.'', Get 1 ''good'']
   \<and> map col_url (db (fst (run demo_env [0, 0, 1, 1] (demo_dm 2 [''two'', ''good''])))) = [''good'']
   \<and> threads (fst (run demo_env [0, 0, 1, 1] (demo_dm 2 [''two'', ''good'']))) =
       [Died (SystemExit None), Done]
   \<and> exit_status (snd (run demo_env [0, 0, 1, 1] (demo_dm 2 [''two'', ''good'']))) = 0"
  by (simp add: throttled_two run_eval process_two process_good numeral_2_eq_2)

section \<open>The assertion on the number of threads\<close>

lemma in_set_prefix: "prefix xs ys \<Longrightarrow> x \<in> set xs \<Longrightarrow> x \<in> set ys"
  using set_mono_prefix by blast

text \<open>
  C4, on the code. With 10001 URLs and 10001 requested connections the assertion on the
  number of threads fails and its message is written, yet 10001 threads are started and
  \<open>run\<close> returns normally once they have ended, with exit status 0. With one URL and 0
  connections the message is written and \<open>run\<close> returns normally as well.
\<close>

theorem invalid_concurrency_runs_on:
  "snd (run demo_env sched (demo_dm 10001 (replicate 10001 ''good''))) = None
   \<and> ErrWrite ''invalid number of concurrent connections''
        \<in> set (out (fst (run demo_env sched (demo_dm 10001 (replicate 10001 ''good'')))))
   \<and> length (threads (fst (run demo_env sched (demo_dm 10001 (replicate 10001 ''good''))))) = 10001
   \<and> exit_status (snd (run demo_env sched (demo_dm 10001 (replicate 10001 ''good'')))) = 0
   \<and> run demo_env sched (demo_dm 0 [''good'']) =
       (\<lparr>db = [], conn = 0, urls = ''urls.txt'', queue = [''good''], threads = [],
         out = [Print ''Processing urls...'',
                ErrWrite ''invalid number of concurrent connections'',
                Print ''Scraping begins...'']\<rparr>, None)"
proof -
  let ?d = "demo_dm 10001 (replicate 10001 ''good'')"
  let ?s = "start_threads ?d"
  have q: "queue ?d = replicate 10001 ''good''" "conn ?d = 10001" "threads ?d = []" "db ?d = []"
    by (simp_all add: demo_dm_def)
  have ne: "queue ?d \<noteq> []" by (simp add: q)
  have r: "run demo_env sched ?d = (join_threads demo_env sched ?s, None)"
    using ne by (rule run_nonempty)
  have m0: "ErrWrite ''invalid number of concurrent connections'' \<in> set (out ?s)"
    by (simp add: start_threads_out q)
  have "prefix (out ?s) (out (join_threads demo_env sched ?s))"
    by (rule join_threads_out_prefix)
  then have m: "ErrWrite ''invalid number of concurrent connections''
      \<in> set (out (join_threads demo_env sched ?s))"
    using m0 by (rule in_set_prefix)
  have t: "threads ?s = replicate 10001 Idle" by (simp add: start_threads_threads q)
  have z: "run demo_env sched (demo_dm 0 [''good'']) =
       (\<lparr>db = [], conn = 0, urls = ''urls.txt'', queue = [''good''], threads = [],
         out = [Print ''Processing urls...'',
                ErrWrite ''invalid number of concurrent connections'',
                Print ''Scraping begins...'']\<rparr>, None)"
    by (simp add: run_def start_threads_def demo_dm_def join_threads_done live_def)
  from r m t z show ?thesis by simp
qed

end
